theory Spec2Isabelle
  imports Main
begin

section \<open>JavaScript values\<close>

text \<open>
  A thrown value is either an \<^verbatim>\<open>Error\<close> object (or a subclass such as
  \<^verbatim>\<open>TypeError\<close>), of which only the message is read, or some other value.
  A promise is modelled by its settled state.  A property that may be a string,
  \<^verbatim>\<open>null\<close> or absent is a \<open>js_string\<close>.
\<close>

datatype js_error = Error string | NonError

datatype 'a promise = Fulfilled 'a | Rejected js_error

datatype js_string = Undefined | Null | Str string

text \<open>What a template literal \<^verbatim>\<open>`${v}`\<close> renders.\<close>

fun template :: "js_string \<Rightarrow> string" where
  "template Undefined = ''undefined''"
| "template Null = ''null''"
| "template (Str s) = s"

text \<open>\<^verbatim>\<open>String(n)\<close> of a non-negative integer: its decimal digits.\<close>

definition digit :: "nat \<Rightarrow> char" where
  "digit d = char_of (48 + d)"

fun string_of_nat :: "nat \<Rightarrow> string" where
  "string_of_nat n =
     (if n < 10 then [digit n] else string_of_nat (n div 10) @ [digit (n mod 10)])"

declare string_of_nat.simps [simp del]

section \<open>The message table and the agent's persisted memory\<close>

datatype role = User | Assistant | Tool

record tool_call =
  call_id :: string
  function_name :: string
  function_arguments :: string

text \<open>
  A row of the SQL table \<^verbatim>\<open>messages\<close> without its primary key, and also a chat
  message as it is sent to the model.  The column \<^verbatim>\<open>tool_calls\<close> holds
  \<^verbatim>\<open>JSON.stringify\<close> of the list and is read back with \<^verbatim>\<open>JSON.parse\<close>;
  the model keeps the list itself.
\<close>

record chat_message =
  msg_role :: role
  msg_content :: "string option"
  msg_tool_calls :: "tool_call list option"
  msg_tool_call_id :: "string option"

record ChannelCheckpoint =
  oldestSeenMessageId :: "nat option"
  summary :: "string option"

record MemoryBlockI =
  label :: string
  description :: string
  block_value :: string
  limit :: nat
  readOnly :: "bool option"
  lastUpdated :: nat

record MemoryState =
  system :: string
  blocks :: "MemoryBlockI list"
  messageBuffer :: "string list"
  channelCheckpoints :: "string \<rightharpoonup> ChannelCheckpoint"

text \<open>
  The agent: its persisted memory and its table \<^verbatim>\<open>messages\<close>, whose primary key
  is the message id (\<^verbatim>\<open>INSERT OR REPLACE\<close> overwrites the row of an id).
\<close>

record MyAgent =
  memory :: MemoryState
  messages :: "string \<rightharpoonup> chat_message"

text \<open>The state after the constructor and the first boot: no row, an empty buffer.\<close>

definition bootedAgent :: "string \<Rightarrow> MemoryBlockI list \<Rightarrow> MyAgent" where
  "bootedAgent instructions defaultBlocks =
     \<lparr> memory = \<lparr> system = instructions, blocks = defaultBlocks,
                   messageBuffer = [], channelCheckpoints = Map.empty \<rparr>,
       messages = Map.empty \<rparr>"

text \<open>
  \<^verbatim>\<open>addMessage\<close>: the row is written with \<^verbatim>\<open>content ?? null\<close>,
  \<^verbatim>\<open>tool_calls ? JSON.stringify(tool_calls) : null\<close> and
  \<^verbatim>\<open>tool_call_id ?? null\<close>, then the id is appended to the buffer.
\<close>

definition addMessage :: "string \<Rightarrow> chat_message \<Rightarrow> MyAgent \<Rightarrow> MyAgent" where
  "addMessage mid message a =
     a\<lparr> messages := (messages a)(mid \<mapsto> message),
        memory := (memory a)\<lparr> messageBuffer := messageBuffer (memory a) @ [mid] \<rparr> \<rparr>"

text \<open>
  A row read back into a chat message: \<^verbatim>\<open>if (row.content) message.content = row.content\<close>
  keeps a column only when it is truthy, so an empty string is dropped like a null.
\<close>

definition truthy :: "string option \<Rightarrow> string option" where
  "truthy c = (case c of None \<Rightarrow> None | Some s \<Rightarrow> if s = [] then None else Some s)"

definition rowToMessage :: "chat_message \<Rightarrow> chat_message" where
  "rowToMessage row =
     \<lparr> msg_role = msg_role row,
       msg_content = truthy (msg_content row),
       msg_tool_calls = msg_tool_calls row,
       msg_tool_call_id = truthy (msg_tool_call_id row) \<rparr>"

text \<open>
  \<^verbatim>\<open>SELECT * FROM messages WHERE id IN (...)\<close> collected into a map and read in the
  order of the ids, ids without a row filtered out.
\<close>

definition selectInOrder :: "(string \<rightharpoonup> chat_message) \<Rightarrow> string list \<Rightarrow> chat_message list" where
  "selectInOrder table ids = List.map_filter (\<lambda>i. map_option rowToMessage (table i)) ids"

definition getMessages :: "MyAgent \<Rightarrow> chat_message list" where
  "getMessages a =
     (if length (messageBuffer (memory a)) = 0 then []
      else selectInOrder (messages a) (messageBuffer (memory a)))"

section \<open>The rolling window: \<^verbatim>\<open>summarizeAndPruneMessages\<close>\<close>

record buffer_config =
  MAX_MESSAGES :: nat
  SUMMARY_MESSAGE_ID_PREFIX :: string

definition MESSAGE_BUFFER_CONFIG :: buffer_config where
  "MESSAGE_BUFFER_CONFIG = \<lparr> MAX_MESSAGES = 50, SUMMARY_MESSAGE_ID_PREFIX = ''summary_'' \<rparr>"

text \<open>
  \<^verbatim>\<open>Math.floor(bufferSize * MESSAGE_BUFFER_CONFIG.PRUNE_PERCENTAGE)\<close> is a product of
  IEEE 754 binary64 numbers.  The literal \<^verbatim>\<open>0.7\<close> is the binary64 number
  \<open>6305039478318694 / 2 ^ 53\<close>; an array length is an integer below \<open>2 ^ 32\<close>
  and is represented exactly.  The product is the exact product rounded to 53
  significant bits, ties to even; scaled by \<open>2 ^ 53\<close> it is computed on integers.
\<close>

fun bit_length :: "nat \<Rightarrow> nat" where
  "bit_length n = (if n = 0 then 0 else Suc (bit_length (n div 2)))"

declare bit_length.simps [simp del]

definition round_to_binary64 :: "nat \<Rightarrow> nat" where
  "round_to_binary64 p =
     (let b = bit_length p in
      if b \<le> 53 then p
      else let s = b - 53;
               q = p div 2 ^ s;
               r = p mod 2 ^ s
           in (if 2 * r > 2 ^ s \<or> (2 * r = 2 ^ s \<and> odd q) then q + 1 else q) * 2 ^ s)"

definition PRUNE_PERCENTAGE_significand :: nat where
  "PRUNE_PERCENTAGE_significand = 6305039478318694"

definition numToRemove_of :: "nat \<Rightarrow> nat" where
  "numToRemove_of bufferSize =
     round_to_binary64 (bufferSize * PRUNE_PERCENTAGE_significand) div 2 ^ 53"

text \<open>
  The one request \<^verbatim>\<open>summarizeAndPruneMessages\<close> sends: the system message is the
  constant \<^verbatim>\<open>SUMMARY_PROMPT\<close> and the user message is
  \<^verbatim>\<open>"Conversation to summarize:\n" + JSON.stringify(messagesToSummarize, null, 2)\<close>,
  so the request is determined by the messages to summarize.  The request of
  \<^verbatim>\<open>summarizeMessages\<close> is determined by the previous summary and the transcript.
\<close>

datatype llm_request =
  SummarizeConversation "chat_message list"
| MergeChannelSummary string string

text \<open>
  \<^verbatim>\<open>callLlm\<close> returns \<^verbatim>\<open>json.choices[0].message\<close> or throws (the fetch fails,
  the body is not JSON, there is no \<^verbatim>\<open>choices[0]\<close>).  The message may be
  absent (\<open>None\<close>); of a message only \<^verbatim>\<open>content\<close> is read here.
\<close>

type_synonym llm = "llm_request \<Rightarrow> js_error + js_string option"

text \<open>The \<^verbatim>\<open>TypeError\<close> of reading \<^verbatim>\<open>content\<close> of an absent message.\<close>

definition typeErrorNoContent :: js_error where
  "typeErrorNoContent =
     Error (''Cannot read properties of undefined (reading '' @ [CHR 0x27] @ ''content''
            @ [CHR 0x27] @ '')'')"

definition idsToSummarize :: "MyAgent \<Rightarrow> string list" where
  "idsToSummarize a =
     take (numToRemove_of (length (messageBuffer (memory a)))) (messageBuffer (memory a))"

definition idsToKeep :: "MyAgent \<Rightarrow> string list" where
  "idsToKeep a =
     drop (numToRemove_of (length (messageBuffer (memory a)))) (messageBuffer (memory a))"

definition messagesToSummarize :: "MyAgent \<Rightarrow> chat_message list" where
  "messagesToSummarize a = selectInOrder (messages a) (idsToSummarize a)"

definition summaryMessageId :: "buffer_config \<Rightarrow> nat \<Rightarrow> string" where
  "summaryMessageId cfg now = SUMMARY_MESSAGE_ID_PREFIX cfg @ string_of_nat now"

definition summaryRow :: "js_string \<Rightarrow> chat_message" where
  "summaryRow content =
     \<lparr> msg_role = User,
       msg_content =
         Some (''The following is a summary of the previous messages:'' @ [CHR 0x0A] @ template content),
       msg_tool_calls = None,
       msg_tool_call_id = None \<rparr>"

text \<open>
  The result is the outcome (a thrown error or a normal return), the agent as the call
  leaves it, and the requests sent to the model, in order.  \<open>now\<close> is what
  \<^verbatim>\<open>Date.now()\<close> returns.
\<close>

definition summarizeAndPruneMessages ::
  "buffer_config \<Rightarrow> llm \<Rightarrow> nat \<Rightarrow> MyAgent \<Rightarrow> (js_error + unit) \<times> MyAgent \<times> llm_request list" where
  "summarizeAndPruneMessages cfg callLlm now a =
     (let bufferSize = length (messageBuffer (memory a)) in
      if bufferSize \<le> MAX_MESSAGES cfg then (Inr (), a, [])
      else
        let request = SummarizeConversation (messagesToSummarize a) in
        case callLlm request of
          Inl e \<Rightarrow> (Inl e, a, [request])
        | Inr None \<Rightarrow>
            (Inl typeErrorNoContent, a, [request])
        | Inr (Some content) \<Rightarrow>
            (Inr (),
             a\<lparr> messages := (messages a)(summaryMessageId cfg now \<mapsto> summaryRow content),
                memory := (memory a)\<lparr> messageBuffer := summaryMessageId cfg now # idsToKeep a \<rparr> \<rparr>,
             [request]))"

text \<open>Every id of the buffer has a row in the table.\<close>

definition bufferResolves :: "MyAgent \<Rightarrow> bool" where
  "bufferResolves a = list_all (\<lambda>i. messages a i \<noteq> None) (messageBuffer (memory a))"

text \<open>A run of pushes: \<^verbatim>\<open>addMessage\<close> once per message, in order.\<close>

definition pushAll :: "(string \<times> chat_message) list \<Rightarrow> MyAgent \<Rightarrow> MyAgent" where
  "pushAll ms a = fold (\<lambda>(mid, message). addMessage mid message) ms a"

text \<open>
  A direct-message agent after \<open>n\<close> user messages with the ids \<^verbatim>\<open>m0\<close>,
  \<^verbatim>\<open>m1\<close>, ..., used to run the definitions on concrete states.
\<close>

definition exampleRow :: chat_message where
  "exampleRow = \<lparr> msg_role = User, msg_content = Some ''hello'',
                  msg_tool_calls = None, msg_tool_call_id = None \<rparr>"

definition exampleIds :: "nat \<Rightarrow> string list" where
  "exampleIds n = map (\<lambda>i. CHR ''m'' # string_of_nat i) [0..<n]"

definition exampleAgent :: "nat \<Rightarrow> MyAgent" where
  "exampleAgent n = pushAll (map (\<lambda>i. (i, exampleRow)) (exampleIds n)) (bootedAgent [] [])"

definition llmReplies :: "string \<Rightarrow> llm" where
  "llmReplies s = (\<lambda>request. Inr (Some (Str s)))"

definition llmFails :: "js_error \<Rightarrow> llm" where
  "llmFails e = (\<lambda>request. Inl e)"

section \<open>The memory tools and the tool dispatcher\<close>

text \<open>
  \<^verbatim>\<open>String.prototype.split\<close> on a one-character separator, \<^verbatim>\<open>Array.prototype.join\<close>
  and \<^verbatim>\<open>Array.prototype.splice(start, 0, item)\<close> for an integer \<open>start\<close>: a negative
  start counts from the end and is clamped at 0, a start past the end is clamped at
  the length.
\<close>

fun split_on :: "char \<Rightarrow> string \<Rightarrow> string list" where
  "split_on c [] = [[]]"
| "split_on c (x # xs) =
     (if x = c then [] # split_on c xs
      else (case split_on c xs of [] \<Rightarrow> [[x]] | l # ls \<Rightarrow> (x # l) # ls))"

fun join_with :: "char \<Rightarrow> string list \<Rightarrow> string" where
  "join_with c [] = []"
| "join_with c [l] = l"
| "join_with c (l # m # ls) = l @ c # join_with c (m # ls)"

definition splice_insert :: "int \<Rightarrow> 'a \<Rightarrow> 'a list \<Rightarrow> 'a list" where
  "splice_insert start item xs =
     (let len = int (length xs);
          actualStart = (if start < 0 then max (len + start) 0 else min start len)
      in take (nat actualStart) xs @ [item] @ drop (nat actualStart) xs)"

text \<open>
  The arguments object of a tool call, with the fields the four tools read.
  \<^verbatim>\<open>insert_line\<close> is a JavaScript number; the model takes it to be an integer.
\<close>

record tool_args =
  arg_label :: string
  new_str :: string
  old_str :: string
  insert_line :: int
  query :: string
  urls :: "string list"

text \<open>
  \<^verbatim>\<open>memoryInsert\<close>.  The tools run on the current agent (\<^verbatim>\<open>getCurrentAgent\<close>) and
  throw when there is none.  Every block with the label gets the new value and
  \<^verbatim>\<open>Date.now()\<close> as \<^verbatim>\<open>lastUpdated\<close>; the new value is
  \<^verbatim>\<open>lines.splice(insert_line, 0, new_str)\<close> on the lines of the old one, joined again.
\<close>

definition insertLine :: "int \<Rightarrow> string \<Rightarrow> string \<Rightarrow> string" where
  "insertLine atLine new_text v =
     join_with (CHR 0x0A) (splice_insert atLine new_text (split_on (CHR 0x0A) v))"

definition memoryInsert ::
  "nat \<Rightarrow> tool_args \<Rightarrow> MyAgent option \<Rightarrow> (js_error + string) \<times> MyAgent option" where
  "memoryInsert now params current =
     (case current of
        None \<Rightarrow> (Inl (Error ''Expected agent''), current)
      | Some agent \<Rightarrow>
          if List.find (\<lambda>b. label b = arg_label params) (blocks (memory agent)) = None
          then (Inr ''Block not found'', current)
          else
            (Inr ''Successfully inserted into memory block'',
             Some (agent\<lparr> memory := (memory agent)\<lparr> blocks :=
               map (\<lambda>b. if label b = arg_label params
                         then b\<lparr> block_value := insertLine (insert_line params) (new_str params) (block_value b),
                                lastUpdated := now \<rparr>
                         else b)
                   (blocks (memory agent)) \<rparr> \<rparr>)))"

text \<open>
  \<^verbatim>\<open>String.prototype.replaceAll(searchValue, replaceValue)\<close> on strings, as ECMAScript
  defines it.  The matches are found from left to right and do not overlap; an empty
  search value matches at every position.  Each match is replaced by
  \<^verbatim>\<open>GetSubstitution\<close> of the replacement, which reads \<^verbatim>\<open>$$\<close> as a dollar sign,
  \<^verbatim>\<open>$&\<close> as the match, \<^verbatim>\<open>$`\<close> as the text before the match and \<^verbatim>\<open>$'\<close> as the
  text after it; a string search value has no captures, so any other dollar sign
  stands for itself.
\<close>

fun getSubstitution :: "string \<Rightarrow> string \<Rightarrow> nat \<Rightarrow> string \<Rightarrow> string" where
  "getSubstitution matched str position [] = []"
| "getSubstitution matched str position [c] = [c]"
| "getSubstitution matched str position (c # d # rest) =
     (if c = CHR ''$'' then
        (if d = CHR ''$'' then CHR ''$'' # getSubstitution matched str position rest
         else if d = CHR ''&'' then matched @ getSubstitution matched str position rest
         else if d = CHR 0x60 then take position str @ getSubstitution matched str position rest
         else if d = CHR 0x27 then
           drop (position + length matched) str @ getSubstitution matched str position rest
         else c # getSubstitution matched str position (d # rest))
      else c # getSubstitution matched str position (d # rest))"

function replaceAllFrom :: "string \<Rightarrow> string \<Rightarrow> string \<Rightarrow> nat \<Rightarrow> string \<Rightarrow> string" where
  "replaceAllFrom str searchValue replaceValue position rest =
     (if take (length searchValue) rest = searchValue then
        getSubstitution searchValue str position replaceValue @
          (if searchValue = [] then
             (case rest of
                [] \<Rightarrow> []
              | x # xs \<Rightarrow> x # replaceAllFrom str searchValue replaceValue (Suc position) xs)
           else replaceAllFrom str searchValue replaceValue (position + length searchValue)
                  (drop (length searchValue) rest))
      else
        (case rest of
           [] \<Rightarrow> []
         | x # xs \<Rightarrow> x # replaceAllFrom str searchValue replaceValue (Suc position) xs))"
  by pat_completeness auto
termination
proof (relation "measure (\<lambda>(str, searchValue, replaceValue, position, rest). length rest)")
  show "wf (measure (\<lambda>(str, searchValue, replaceValue, position, rest). length rest))" by simp
next
  fix str searchValue replaceValue :: string and position :: nat and rest :: string
  assume "take (length searchValue) rest = searchValue" "searchValue \<noteq> []"
  then have "rest \<noteq> []" by auto
  then show "((str, searchValue, replaceValue, position + length searchValue,
               drop (length searchValue) rest),
              (str, searchValue, replaceValue, position, rest))
             \<in> measure (\<lambda>(str, searchValue, replaceValue, position, rest). length rest)"
    using \<open>searchValue \<noteq> []\<close> by simp
qed auto

declare replaceAllFrom.simps [simp del]

definition replaceAll :: "string \<Rightarrow> string \<Rightarrow> string \<Rightarrow> string" where
  "replaceAll str searchValue replaceValue = replaceAllFrom str searchValue replaceValue 0 str"

text \<open>\<^verbatim>\<open>memoryReplace\<close>, which returns the same success message as \<^verbatim>\<open>memoryInsert\<close>.\<close>

definition memoryReplace ::
  "nat \<Rightarrow> tool_args \<Rightarrow> MyAgent option \<Rightarrow> (js_error + string) \<times> MyAgent option" where
  "memoryReplace now params current =
     (case current of
        None \<Rightarrow> (Inl (Error ''Expected agent''), current)
      | Some agent \<Rightarrow>
          if List.find (\<lambda>b. label b = arg_label params) (blocks (memory agent)) = None
          then (Inr ''Block not found'', current)
          else
            (Inr ''Successfully inserted into memory block'',
             Some (agent\<lparr> memory := (memory agent)\<lparr> blocks :=
               map (\<lambda>b. if label b = arg_label params
                         then b\<lparr> block_value := replaceAll (block_value b) (old_str params) (new_str params),
                                lastUpdated := now \<rparr>
                         else b)
                   (blocks (memory agent)) \<rparr> \<rparr>)))"

text \<open>
  The outcome of one \<^verbatim>\<open>fetch\<close>: it throws, or it returns a response with a status, a
  status text and the promise \<^verbatim>\<open>response.text()\<close>.  \<^verbatim>\<open>internetSearch\<close> and
  \<^verbatim>\<open>readWebsites\<close> run the same loop of at most three attempts, here
  \<open>tavilyLoop\<close>: a 429 goes to the next attempt; a throw inside the \<^verbatim>\<open>try\<close> (the
  fetch, or a status that is not ok) is swallowed before the last attempt and rethrown
  at the last; \<^verbatim>\<open>response.text()\<close> is returned as it is; after the loop the result is
  the tool's error string.  The network gives the outcome of each attempt.
\<close>

datatype fetch_result = FetchRejects js_error | Response nat string "string promise"

definition response_ok :: "nat \<Rightarrow> bool" where
  "response_ok status = (200 \<le> status \<and> status \<le> 299)"

definition retries :: nat where
  "retries = 3"

function tavilyLoop :: "string \<Rightarrow> (nat \<Rightarrow> fetch_result) \<Rightarrow> nat \<Rightarrow> string promise" where
  "tavilyLoop exhausted fetch i =
     (if i < retries then
        (case fetch i of
           FetchRejects error \<Rightarrow>
             if i \<ge> retries - 1 then Rejected error else tavilyLoop exhausted fetch (i + 1)
         | Response status statusText body \<Rightarrow>
             if status = 429 then tavilyLoop exhausted fetch (i + 1)
             else if \<not> response_ok status then
               (if i \<ge> retries - 1
                then Rejected (Error (''Failed to search the internet: '' @ statusText))
                else tavilyLoop exhausted fetch (i + 1))
             else body)
      else Fulfilled exhausted)"
  by pat_completeness auto
termination
  by (relation "measure (\<lambda>(exhausted, fetch, i). retries - i)") auto

declare tavilyLoop.simps [simp del]

type_synonym network = "string \<Rightarrow> tool_args \<Rightarrow> nat \<Rightarrow> fetch_result"

definition internetSearch :: "network \<Rightarrow> tool_args \<Rightarrow> string promise" where
  "internetSearch net params =
     tavilyLoop ''Error: Failed to search the internet''
       (net ''https://api.tavily.com/search'' params) 0"

definition readWebsites :: "network \<Rightarrow> tool_args \<Rightarrow> string promise" where
  "readWebsites net params =
     tavilyLoop ''Error: Failed to read the website(s)''
       (net ''https://api.tavily.com/extract'' params) 0"

text \<open>
  \<^verbatim>\<open>callTool\<close> is an async function: its result is a promise.  A memory tool returns
  or throws inside the \<^verbatim>\<open>try\<close>, and the \<^verbatim>\<open>catch\<close> turns a throw into
  \<^verbatim>\<open>e instanceof Error ? e.message : "Unknown error"\<close>.  An async tool returns a promise
  that \<^verbatim>\<open>callTool\<close> returns without awaiting it, so the promise of \<^verbatim>\<open>callTool\<close>
  settles as that promise does.  An unknown tool name gives \<^verbatim>\<open>undefined\<close>.
\<close>

definition caught :: "js_error \<Rightarrow> string" where
  "caught e = (case e of Error m \<Rightarrow> m | NonError \<Rightarrow> ''Unknown error'')"

definition returnSync ::
  "(js_error + string) \<times> MyAgent option \<Rightarrow> string option promise \<times> MyAgent option" where
  "returnSync r =
     (case fst r of
        Inl e \<Rightarrow> (Fulfilled (Some (caught e)), snd r)
      | Inr v \<Rightarrow> (Fulfilled (Some v), snd r))"

definition returnPromise :: "string promise \<Rightarrow> string option promise" where
  "returnPromise p = (case p of Fulfilled v \<Rightarrow> Fulfilled (Some v) | Rejected e \<Rightarrow> Rejected e)"

text \<open>\<^verbatim>\<open>await p\<close>: the value of a fulfilled promise; a rejected one throws its error.\<close>

definition awaitPromise :: "'a promise \<Rightarrow> js_error + 'a" where
  "awaitPromise p = (case p of Fulfilled v \<Rightarrow> Inr v | Rejected e \<Rightarrow> Inl e)"

definition callTool ::
  "network \<Rightarrow> nat \<Rightarrow> string \<Rightarrow> tool_args \<Rightarrow> MyAgent option
     \<Rightarrow> string option promise \<times> MyAgent option" where
  "callTool net now toolName args current =
     (if toolName = ''memory_insert'' then returnSync (memoryInsert now args current)
      else if toolName = ''memory_replace'' then returnSync (memoryReplace now args current)
      else if toolName = ''internet_search'' then (returnPromise (internetSearch net args), current)
      else if toolName = ''read_website'' then (returnPromise (readWebsites net args), current)
      else (Fulfilled None, current))"

text \<open>A memory block, an agent holding it and tool arguments, to run the tools on.\<close>

definition exampleBlock :: MemoryBlockI where
  "exampleBlock =
     \<lparr> label = ''human'', description = ''The human block'',
       block_value = ''First name: ?'' @ [CHR 0x0A] @ ''Last name: ?'',
       limit = 5000, readOnly = None, lastUpdated = 0 \<rparr>"

definition exampleArgs :: tool_args where
  "exampleArgs =
     \<lparr> arg_label = ''human'', new_str = ''Age: 30'', old_str = ''?'', insert_line = 0,
       query = ''weather'', urls = [] \<rparr>"

definition serverError :: network where
  "serverError = (\<lambda>url args attempt. Response 500 ''Internal Server Error'' (Fulfilled []))"

section \<open>Channel context: \<^verbatim>\<open>buildContextFromDiscord\<close>\<close>

text \<open>
  A Discord message as the agent reads it.  The id of a message is a snowflake, a decimal
  string that the program compares as \<^verbatim>\<open>BigInt(m.id)\<close>; the model keeps that number
  (two canonical decimal strings are equal exactly when their numbers are).
\<close>

record DiscordAuthor =
  author_id :: string
  username :: "string option"

record DiscordMessage =
  message_id :: nat
  author :: DiscordAuthor
  message_content :: "string option"

record channel_context =
  ctx_summary :: string
  recentMessages :: "DiscordMessage list"

text \<open>
  \<^verbatim>\<open>fetchChannelMessages(channelId, {limit: 100, before})\<close>: the page Discord returns, or
  the error thrown when the request fails.
\<close>

type_synonym discord = "string \<Rightarrow> nat option \<Rightarrow> js_error + DiscordMessage list"

text \<open>
  \<^verbatim>\<open>String.prototype.trim\<close> and \<^verbatim>\<open>s || ""\<close>.  The white space stripped here is the
  ASCII part of what JavaScript strips (space, tab, line feed, vertical tab, form feed,
  carriage return); the Unicode spaces and line separators are not in \<open>char\<close>.
\<close>

definition js_whitespace :: "char \<Rightarrow> bool" where
  "js_whitespace c = (c \<in> set [CHR '' '', CHR 0x09, CHR 0x0A, CHR 0x0B, CHR 0x0C, CHR 0x0D])"

definition trim :: "string \<Rightarrow> string" where
  "trim s = rev (dropWhile js_whitespace (rev (dropWhile js_whitespace s)))"

definition orEmpty :: "string option \<Rightarrow> string" where
  "orEmpty s = (case s of None \<Rightarrow> [] | Some v \<Rightarrow> v)"

text \<open>
  \<^verbatim>\<open>summarizeMessages\<close>: the messages sorted by id, one transcript line per message,
  one request to the model; the result is
  \<^verbatim>\<open>completion.content?.trim() || previousSummary || ""\<close>.
\<close>

definition transcriptLine :: "DiscordMessage \<Rightarrow> string" where
  "transcriptLine m =
     (case username (author m) of None \<Rightarrow> author_id (author m) | Some u \<Rightarrow> u)
       @ '': '' @ orEmpty (message_content m)"

definition summarizeMessages ::
  "llm \<Rightarrow> string \<Rightarrow> DiscordMessage list \<Rightarrow> (js_error + string) \<times> llm_request list" where
  "summarizeMessages callLlm previousSummary msgs =
     (let sorted = sort_key message_id msgs;
          transcript = join_with (CHR 0x0A) (map transcriptLine sorted);
          request = MergeChannelSummary
                      (if previousSummary = [] then ''(none)'' else previousSummary) transcript
      in case callLlm request of
           Inl e \<Rightarrow> (Inl e, [request])
         | Inr None \<Rightarrow>
             (Inl typeErrorNoContent, [request])
         | Inr (Some completion) \<Rightarrow>
             (let trimmed = (case completion of Str s \<Rightarrow> trim s | Null \<Rightarrow> [] | Undefined \<Rightarrow> [])
              in (Inr (if trimmed \<noteq> [] then trimmed else previousSummary), [request])))"

text \<open>
  \<^verbatim>\<open>recentMessages.reduce((oldest, msg) => BigInt(msg.id) < BigInt(oldest.id) ? msg : oldest)\<close>
  on a non-empty page, and \<^verbatim>\<open>this.memory.channelCheckpoints[channelId] || {}\<close>.
\<close>

definition oldestOf :: "DiscordMessage \<Rightarrow> DiscordMessage list \<Rightarrow> DiscordMessage" where
  "oldestOf first others =
     foldl (\<lambda>oldest msg. if message_id msg < message_id oldest then msg else oldest) first others"

definition checkpointOf :: "MyAgent \<Rightarrow> string \<Rightarrow> ChannelCheckpoint" where
  "checkpointOf a channelId =
     (case channelCheckpoints (memory a) channelId of
        None \<Rightarrow> \<lparr> oldestSeenMessageId = None, summary = None \<rparr>
      | Some checkpoint \<Rightarrow> checkpoint)"

definition buildContextFromDiscord ::
  "discord \<Rightarrow> llm \<Rightarrow> string \<Rightarrow> MyAgent
     \<Rightarrow> (js_error + channel_context) \<times> MyAgent \<times> llm_request list" where
  "buildContextFromDiscord fetchChannelMessages callLlm channelId a =
     (let checkpoint = checkpointOf a channelId in
      case fetchChannelMessages channelId None of
        Inl e \<Rightarrow> (Inl e, a, [])
      | Inr recent \<Rightarrow>
          (case recent of
             [] \<Rightarrow> (Inr \<lparr> ctx_summary = orEmpty (summary checkpoint), recentMessages = [] \<rparr>, a, [])
           | first # others \<Rightarrow>
               let oldestRecent = oldestOf first others;
                   needsSummarization =
                     (length recent = 100 \<and>
                      (oldestSeenMessageId checkpoint = None \<or>
                       Some (message_id oldestRecent) \<noteq> oldestSeenMessageId checkpoint));
                   previous = orEmpty (summary checkpoint)
               in if needsSummarization then
                    (case fetchChannelMessages channelId (Some (message_id oldestRecent)) of
                       Inl e \<Rightarrow> (Inl e, a, [])
                     | Inr olderMessages \<Rightarrow>
                         if length olderMessages > 0 then
                           (case summarizeMessages callLlm previous olderMessages of
                              (Inl e, requests) \<Rightarrow> (Inl e, a, requests)
                            | (Inr merged, requests) \<Rightarrow>
                                (Inr \<lparr> ctx_summary = merged, recentMessages = recent \<rparr>,
                                 a\<lparr> memory := (memory a)\<lparr> channelCheckpoints :=
                                      (channelCheckpoints (memory a))
                                        (channelId \<mapsto>
                                           \<lparr> oldestSeenMessageId = Some (message_id oldestRecent),
                                             summary = Some merged \<rparr>) \<rparr> \<rparr>,
                                 requests))
                         else (Inr \<lparr> ctx_summary = previous, recentMessages = recent \<rparr>, a, []))
                  else (Inr \<lparr> ctx_summary = previous, recentMessages = recent \<rparr>, a, [])))"

text \<open>
  The channel as Discord serves it.  \<open>log\<close> holds the messages of the channel, oldest
  first; a request returns the 100 most recent messages (those before the given id, if
  one is given), most recent first.  A fetch \<open>serves\<close> a channel when each request
  returns that page or fails.
\<close>

definition channelHistory :: "DiscordMessage list \<Rightarrow> nat option \<Rightarrow> DiscordMessage list" where
  "channelHistory log before =
     take 100 (rev (filter (\<lambda>m. case before of None \<Rightarrow> True | Some b \<Rightarrow> message_id m < b) log))"

definition serves :: "discord \<Rightarrow> string \<Rightarrow> DiscordMessage list \<Rightarrow> bool" where
  "serves fetchChannelMessages channelId log =
     (\<forall>before. fetchChannelMessages channelId before = Inr (channelHistory log before) \<or>
               (\<exists>e. fetchChannelMessages channelId before = Inl e))"

text \<open>
  The runs of an agent next to one channel that only receives messages: the agent
  boots, the channel receives messages with increasing ids, the agent builds the
  context of this channel or of another one.  No rule removes a message from the log,
  so a run never deletes a message of the channel.
\<close>

inductive channelRun :: "string \<Rightarrow> DiscordMessage list \<Rightarrow> MyAgent \<Rightarrow> bool"
  for channelId :: string where
  boot: "channelRun channelId [] (bootedAgent instructions defaultBlocks)"
| receive:
    "channelRun channelId log a \<Longrightarrow> sorted_wrt (<) (map message_id (log @ new)) \<Longrightarrow>
     channelRun channelId (log @ new) a"
| build:
    "channelRun channelId log a \<Longrightarrow> serves fetchChannelMessages channelId log \<Longrightarrow>
     buildContextFromDiscord fetchChannelMessages callLlm channelId a = (r, a', requests) \<Longrightarrow>
     channelRun channelId log a'"
| elsewhere:
    "channelRun channelId log a \<Longrightarrow> other \<noteq> channelId \<Longrightarrow>
     buildContextFromDiscord fetchChannelMessages callLlm other a = (r, a', requests) \<Longrightarrow>
     channelRun channelId log a'"

text \<open>The id of the oldest message among the 100 most recent ones.\<close>

definition oldestRecentId :: "DiscordMessage list \<Rightarrow> nat" where
  "oldestRecentId log = message_id (log ! (length log - 100))"

text \<open>A channel of \<open>n\<close> messages with the ids 1 to \<open>n\<close>, served without failures.\<close>

definition discordOf :: "DiscordMessage list \<Rightarrow> discord" where
  "discordOf log = (\<lambda>channelId before. Inr (channelHistory log before))"

definition exampleMessage :: "nat \<Rightarrow> DiscordMessage" where
  "exampleMessage i =
     \<lparr> message_id = i, author = \<lparr> author_id = ''42'', username = None \<rparr>,
       message_content = Some ''hi'' \<rparr>"

definition exampleLog :: "nat \<Rightarrow> DiscordMessage list" where
  "exampleLog n = map exampleMessage [1..<Suc n]"

text \<open>
  The agent after building the context of a channel of 101 messages, and after building
  it again once message 102 has arrived.
\<close>

definition afterFirstBuild :: MyAgent where
  "afterFirstBuild =
     fst (snd (buildContextFromDiscord (discordOf (exampleLog 101)) (llmReplies ''s'') ''general''
                 (bootedAgent [] [])))"

definition afterSecondBuild :: MyAgent where
  "afterSecondBuild =
     fst (snd (buildContextFromDiscord (discordOf (exampleLog 102)) (llmReplies ''s'') ''general''
                 afterFirstBuild))"

text \<open>
  The same channel once message 50 has been deleted, and the agent after building the
  context a third time.
\<close>

definition logWithout50 :: "DiscordMessage list" where
  "logWithout50 = filter (\<lambda>m. message_id m \<noteq> 50) (exampleLog 102)"

definition afterDeletion :: MyAgent where
  "afterDeletion =
     fst (snd (buildContextFromDiscord (discordOf logWithout50) (llmReplies ''s'') ''general''
                 afterSecondBuild))"

section \<open>The message splitter: \<^verbatim>\<open>splitMessageByNewline\<close>\<close>

text \<open>
  \<^verbatim>\<open>remaining.lastIndexOf(c, position)\<close> for a one-character \<open>c\<close>: the greatest index
  at most \<open>position\<close> that holds \<open>c\<close>, or \<open>-1\<close>.  The loop of the splitter is
  \<open>splitLoop\<close>, with the chunks pushed so far and the text that remains.
\<close>

fun lastIndexFrom :: "nat \<Rightarrow> int \<Rightarrow> char \<Rightarrow> string \<Rightarrow> int" where
  "lastIndexFrom i found c [] = found"
| "lastIndexFrom i found c (x # xs) = lastIndexFrom (Suc i) (if x = c then int i else found) c xs"

definition lastIndexOf :: "string \<Rightarrow> char \<Rightarrow> nat \<Rightarrow> int" where
  "lastIndexOf s c position = lastIndexFrom 0 (- 1) c (take (Suc position) s)"

definition splitIndexOf :: "string \<Rightarrow> nat \<Rightarrow> int" where
  "splitIndexOf remaining maxLength =
     (let splitIndex = lastIndexOf remaining (CHR 0x0A) maxLength;
          splitIndex = (if splitIndex = - 1 \<or> splitIndex = 0
                        then lastIndexOf remaining (CHR '' '') maxLength else splitIndex);
          splitIndex = (if splitIndex = - 1 \<or> splitIndex = 0
                        then int maxLength else splitIndex)
      in splitIndex)"

function splitLoop :: "nat \<Rightarrow> string list \<Rightarrow> string \<Rightarrow> string list" where
  "splitLoop maxLength chunks remaining =
     (if length remaining > 0 then
        (if length remaining \<le> maxLength then chunks @ [remaining]
         else splitLoop maxLength
                (chunks @ [take (nat (splitIndexOf remaining maxLength)) remaining])
                (drop (nat (splitIndexOf remaining maxLength + 1)) remaining))
      else chunks)"
  by pat_completeness auto
termination
proof (relation "measure (\<lambda>(maxLength, chunks, remaining). length remaining)")
  show "wf (measure (\<lambda>(maxLength, chunks, remaining). length remaining))" by simp
next
  fix maxLength :: nat and chunks :: "string list" and remaining :: string
  assume nonempty: "0 < length remaining"
  have scan: "lastIndexFrom i found c xs = found \<or> int i \<le> lastIndexFrom i found c xs"
    for i found c xs
  proof (induction xs arbitrary: i found)
    case Nil
    show ?case by simp
  next
    case (Cons x xs)
    show ?case using Cons [of "Suc i" "if x = c then int i else found"] by auto
  qed
  have "lastIndexOf remaining c maxLength = - 1 \<or> 0 \<le> lastIndexOf remaining c maxLength" for c
    using scan [of 0 "- 1" c "take (Suc maxLength) remaining"] by (simp add: lastIndexOf_def)
  then have "0 \<le> splitIndexOf remaining maxLength"
    by (auto simp: splitIndexOf_def Let_def)
  then have "0 < nat (splitIndexOf remaining maxLength + 1)" by simp
  then show "((maxLength, chunks @ [take (nat (splitIndexOf remaining maxLength)) remaining],
               drop (nat (splitIndexOf remaining maxLength + 1)) remaining),
              (maxLength, chunks, remaining))
             \<in> measure (\<lambda>(maxLength, chunks, remaining). length remaining)"
    using nonempty by simp
qed

declare splitLoop.simps [simp del]

definition splitMessageByNewline :: "string \<Rightarrow> nat \<Rightarrow> string list" where
  "splitMessageByNewline msg maxLength =
     (if length msg \<le> maxLength then [msg] else splitLoop maxLength [] msg)"

section \<open>Arithmetic of the prune count\<close>

lemma bit_length_0 [simp]: "bit_length 0 = 0"
  by (simp add: bit_length.simps[of 0])

lemma bit_length_pos: "0 < n \<Longrightarrow> bit_length n = Suc (bit_length (n div 2))"
  by (subst bit_length.simps) simp

lemma bit_length_numeral [simp]:
  "bit_length (numeral (Num.Bit0 k)) = Suc (bit_length (numeral k))"
  "bit_length (numeral (Num.Bit1 k)) = Suc (bit_length (numeral k))"
  "bit_length (numeral Num.One) = Suc 0"
  "bit_length (Suc 0) = Suc 0"
  by (simp_all add: bit_length_pos)

lemma bit_length_upper: "n < 2 ^ bit_length n"
proof (induction n rule: less_induct)
  case (less n)
  show ?case
  proof (cases "n = 0")
    case True
    then show ?thesis by simp
  next
    case False
    then have pos: "0 < n" by simp
    have "n div 2 < n" using pos by simp
    then have ih: "n div 2 < 2 ^ bit_length (n div 2)" by (rule less.IH)
    have "n < 2 * (n div 2) + 2" by arith
    also have "\<dots> \<le> 2 * 2 ^ bit_length (n div 2)" using ih by arith
    finally show ?thesis by (simp add: bit_length_pos[OF pos])
  qed
qed

lemma bit_length_lower: "0 < n \<Longrightarrow> 2 ^ (bit_length n - 1) \<le> n"
proof (induction n rule: less_induct)
  case (less n)
  show ?case
  proof (cases "n div 2 = 0")
    case True
    then show ?thesis using less.prems by (simp add: bit_length_pos)
  next
    case False
    then have pos: "0 < n div 2" by simp
    have "n div 2 < n" using less.prems by simp
    then have ih: "2 ^ (bit_length (n div 2) - 1) \<le> n div 2" using pos by (rule less.IH)
    have bl: "bit_length (n div 2) = Suc (bit_length (n div 2) - 1)"
      using pos by (simp add: bit_length_pos)
    have "(2::nat) ^ (bit_length n - 1) = 2 ^ bit_length (n div 2)"
      using less.prems by (simp add: bit_length_pos)
    also have "\<dots> = 2 * 2 ^ (bit_length (n div 2) - 1)"
      by (subst bl) simp
    also have "\<dots> \<le> 2 * (n div 2)" using ih by simp
    also have "\<dots> \<le> n" by simp
    finally show ?thesis .
  qed
qed

lemmas numToRemove_unfold =
  numToRemove_of_def round_to_binary64_def PRUNE_PERCENTAGE_significand_def Let_def

lemma numToRemove_of_60: "numToRemove_of 60 = 42"
  by (simp add: numToRemove_unfold)

lemma numToRemove_of_51: "numToRemove_of 51 = 35"
  by (simp add: numToRemove_unfold)

text \<open>
  The binary64 product is not the product of the rationals: \<open>90 * 0.7\<close> rounds to
  \<open>62.99999999999999\<close>, whose floor is 62 and not 63.
\<close>

lemma numToRemove_of_90: "numToRemove_of 90 = 62"
  by (simp add: numToRemove_unfold)

lemma round_to_binary64_small: "bit_length p \<le> 53 \<Longrightarrow> round_to_binary64 p = p"
  by (simp add: round_to_binary64_def)

lemma round_to_binary64_bounds:
  assumes big: "53 < bit_length p"
  shows "2 ^ (bit_length p - 1) \<le> round_to_binary64 p"
    and "2 ^ 52 * round_to_binary64 p \<le> (2 ^ 52 + 1) * p"
proof -
  define s where "s = bit_length p - 53"
  define q where "q = p div 2 ^ s"
  define r where "r = p mod 2 ^ s"
  define q' where "q' = (if 2 * r > 2 ^ s \<or> (2 * r = 2 ^ s \<and> odd q) then q + 1 else q)"
  have R: "round_to_binary64 p = q' * 2 ^ s"
    using big by (simp add: round_to_binary64_def Let_def s_def q_def r_def q'_def)
  have ppos: "0 < p" using big by (cases "p = 0") auto
  have bl: "bit_length p - 1 = 52 + s" using big by (simp add: s_def)
  have low: "2 ^ 52 * 2 ^ s \<le> p"
  proof -
    have "(2::nat) ^ (bit_length p - 1) \<le> p" by (rule bit_length_lower[OF ppos])
    then have "(2::nat) ^ (52 + s) \<le> p" by (simp only: bl)
    then show ?thesis by (simp only: power_add)
  qed
  have "2 ^ 52 * 2 ^ s div 2 ^ s \<le> p div 2 ^ s" using low by (rule div_le_mono)
  then have q52: "2 ^ 52 \<le> q" by (simp add: q_def)
  have qq': "q \<le> q'" "q' \<le> q + 1" by (simp_all add: q'_def)
  have "2 ^ 52 * 2 ^ s \<le> q' * ((2::nat) ^ s)"
    using q52 qq'(1) by (intro mult_le_mono1) simp
  then have "(2::nat) ^ (52 + s) \<le> q' * 2 ^ s" by (simp only: power_add)
  then show "2 ^ (bit_length p - 1) \<le> round_to_binary64 p"
    by (simp only: R bl)
  have qs: "q * 2 ^ s \<le> p" by (simp add: q_def)
  have "q' * 2 ^ s \<le> (q + 1) * 2 ^ s" using qq'(2) by (intro mult_le_mono1)
  also have "\<dots> \<le> p + 2 ^ s" using qs by (simp add: algebra_simps)
  finally have up: "q' * 2 ^ s \<le> p + 2 ^ s" .
  have "2 ^ 52 * (q' * 2 ^ s) \<le> 2 ^ 52 * (p + 2 ^ s)" using up by (intro mult_le_mono2)
  also have "\<dots> = 2 ^ 52 * p + 2 ^ 52 * 2 ^ s" by (simp add: algebra_simps)
  also have "\<dots> \<le> 2 ^ 52 * p + p" using low by simp
  also have "\<dots> = (2 ^ 52 + 1) * p" by (simp add: algebra_simps)
  finally show "2 ^ 52 * round_to_binary64 p \<le> (2 ^ 52 + 1) * p" by (simp add: R)
qed

lemma round_to_binary64_upper: "2 ^ 52 * round_to_binary64 p \<le> (2 ^ 52 + 1) * p"
proof (cases "53 < bit_length p")
  case True
  then show ?thesis by (rule round_to_binary64_bounds(2))
next
  case False
  then have "round_to_binary64 p = p" by (simp add: round_to_binary64_small)
  then show ?thesis by simp
qed

lemma numToRemove_of_less: "0 < n \<Longrightarrow> numToRemove_of n < n"
proof -
  assume pos: "0 < n"
  let ?c = "PRUNE_PERCENTAGE_significand"
  let ?R = "round_to_binary64 (n * ?c)"
  have "2 ^ 52 * ?R \<le> (2 ^ 52 + 1) * (n * ?c)" by (rule round_to_binary64_upper)
  also have "\<dots> = n * ((2 ^ 52 + 1) * ?c)" by (simp add: algebra_simps)
  also have "\<dots> < n * (2 ^ 52 * 2 ^ 53)"
    using pos by (simp add: PRUNE_PERCENTAGE_significand_def)
  finally have "2 ^ 52 * ?R < 2 ^ 52 * (n * 2 ^ 53)" by (simp add: algebra_simps)
  then have "?R < n * 2 ^ 53" by simp
  then show ?thesis by (simp add: numToRemove_of_def less_mult_imp_div_less)
qed

lemma numToRemove_of_le: "numToRemove_of n \<le> n"
proof (cases "n = 0")
  case True
  then show ?thesis by (simp add: numToRemove_of_def round_to_binary64_def)
next
  case False
  then show ?thesis using numToRemove_of_less[of n] by simp
qed

lemma bit_length_mono: "m \<le> n \<Longrightarrow> bit_length m \<le> bit_length n"
proof (induction n arbitrary: m rule: less_induct)
  case (less n)
  show ?case
  proof (cases "m = 0")
    case True
    then show ?thesis by simp
  next
    case False
    then have mpos: "0 < m" and npos: "0 < n" using less.prems by auto
    have "n div 2 < n" using npos by simp
    moreover have "m div 2 \<le> n div 2" using less.prems by (rule div_le_mono)
    ultimately have "bit_length (m div 2) \<le> bit_length (n div 2)" by (rule less.IH)
    then show ?thesis by (simp add: bit_length_pos mpos npos)
  qed
qed

lemma numToRemove_of_ge_2: "3 \<le> n \<Longrightarrow> 2 \<le> numToRemove_of n"
proof -
  assume n3: "3 \<le> n"
  let ?p = "n * PRUNE_PERCENTAGE_significand"
  have p54: "2 ^ 54 \<le> ?p"
  proof -
    have "(2::nat) ^ 54 \<le> 3 * PRUNE_PERCENTAGE_significand"
      by (simp add: PRUNE_PERCENTAGE_significand_def)
    also have "\<dots> \<le> ?p" using n3 by (intro mult_le_mono1)
    finally show ?thesis .
  qed
  have "bit_length ((2::nat) ^ 54) \<le> bit_length ?p" using p54 by (rule bit_length_mono)
  moreover have "bit_length ((2::nat) ^ 54) = 55" by simp
  ultimately have b55: "55 \<le> bit_length ?p" by simp
  then have "(2::nat) ^ 54 \<le> 2 ^ (bit_length ?p - 1)"
    by (intro power_increasing) auto
  also have "\<dots> \<le> round_to_binary64 ?p"
    using b55 by (intro round_to_binary64_bounds(1)) simp
  finally have "2 * 2 ^ 53 \<le> round_to_binary64 ?p" by simp
  then have "2 * 2 ^ 53 div 2 ^ 53 \<le> round_to_binary64 ?p div 2 ^ 53" by (rule div_le_mono)
  then show ?thesis by (simp add: numToRemove_of_def)
qed

text \<open>
  Against the product of the rationals: for an array length \<open>n\<close> the program's count
  is \<open>floor(7 n / 10)\<close> or one less, and it is \<open>floor(7 n / 10)\<close> whenever \<open>7 n / 10\<close>
  is not an integer.  At \<open>n = 90\<close> it is one less (lemma \<open>numToRemove_of_90\<close>).
\<close>

lemma round_to_binary64_lower: "2 ^ 52 * p \<le> 2 ^ 52 * round_to_binary64 p + p"
proof (cases "53 < bit_length p")
  case False
  then have "round_to_binary64 p = p" by (simp add: round_to_binary64_small)
  then show ?thesis by simp
next
  case True
  define s where "s = bit_length p - 53"
  define q where "q = p div 2 ^ s"
  define r where "r = p mod 2 ^ s"
  define q' where "q' = (if 2 * r > 2 ^ s \<or> (2 * r = 2 ^ s \<and> odd q) then q + 1 else q)"
  have R: "round_to_binary64 p = q' * 2 ^ s"
    using True by (simp add: round_to_binary64_def Let_def s_def q_def r_def q'_def)
  have ppos: "0 < p" using True by (cases "p = 0") auto
  have bl: "bit_length p - 1 = 52 + s" using True by (simp add: s_def)
  have low: "2 ^ 52 * 2 ^ s \<le> p"
  proof -
    have "(2::nat) ^ (bit_length p - 1) \<le> p" by (rule bit_length_lower[OF ppos])
    then have "(2::nat) ^ (52 + s) \<le> p" by (simp only: bl)
    then show ?thesis by (simp only: power_add)
  qed
  have split: "p = q * 2 ^ s + r" unfolding q_def r_def by (rule div_mult_mod_eq [symmetric])
  have rs: "r < 2 ^ s" by (simp add: r_def)
  have "q * 2 ^ s \<le> q' * 2 ^ s" by (simp add: q'_def)
  then have "2 ^ 52 * (q * 2 ^ s) \<le> 2 ^ 52 * (q' * 2 ^ s)" by (rule mult_le_mono2)
  moreover have "2 ^ 52 * r \<le> 2 ^ 52 * 2 ^ s" using rs by simp
  moreover have "2 ^ 52 * p = 2 ^ 52 * (q * 2 ^ s) + 2 ^ 52 * r"
    by (subst split) (simp add: algebra_simps)
  ultimately have "2 ^ 52 * p \<le> 2 ^ 52 * (q' * 2 ^ s) + 2 ^ 52 * 2 ^ s" by linarith
  then show ?thesis using low by (simp add: R)
qed

lemma numToRemove_of_near_exact:
  assumes "n < 2 ^ 32"
  shows "numToRemove_of n \<le> 7 * n div 10 \<and> 7 * n div 10 \<le> numToRemove_of n + 1"
proof -
  define R where "R = round_to_binary64 (n * 6305039478318694)"
  define K where "K = 7 * n div 10"
  define K' where "K' = R div 9007199254740992"
  have up: "4503599627370496 * R \<le> 4503599627370497 * (n * 6305039478318694)"
    using round_to_binary64_upper [of "n * 6305039478318694"] by (simp add: R_def)
  have lo: "4503599627370496 * (n * 6305039478318694) \<le> 4503599627370496 * R + n * 6305039478318694"
    using round_to_binary64_lower [of "n * 6305039478318694"] by (simp add: R_def)
  have k: "10 * K \<le> 7 * n" "7 * n < 10 * K + 10" by (simp_all add: K_def)
  have k': "9007199254740992 * K' \<le> R" "R < 9007199254740992 * K' + 9007199254740992"
  proof -
    have "R = K' * 9007199254740992 + R mod 9007199254740992"
      unfolding K'_def by (rule div_mult_mod_eq [symmetric])
    moreover have "R mod 9007199254740992 < 9007199254740992" by simp
    ultimately show "9007199254740992 * K' \<le> R" "R < 9007199254740992 * K' + 9007199254740992"
      by linarith+
  qed
  have n: "n < 4294967296" using assms by simp
  have "K' \<le> K" using up k k' n by linarith
  moreover have "K \<le> K' + 1" using lo k k' n by linarith
  ultimately show ?thesis
    by (simp add: numToRemove_of_def PRUNE_PERCENTAGE_significand_def R_def K_def K'_def)
qed

lemma numToRemove_of_exact:
  assumes "n < 2 ^ 32" and "7 * n mod 10 \<noteq> 0"
  shows "numToRemove_of n = 7 * n div 10"
proof -
  define R where "R = round_to_binary64 (n * 6305039478318694)"
  define K where "K = 7 * n div 10"
  define K' where "K' = R div 9007199254740992"
  have lo: "4503599627370496 * (n * 6305039478318694) \<le> 4503599627370496 * R + n * 6305039478318694"
    using round_to_binary64_lower [of "n * 6305039478318694"] by (simp add: R_def)
  have "7 * n = K * 10 + 7 * n mod 10"
    unfolding K_def by (rule div_mult_mod_eq [symmetric])
  then have k: "10 * K + 1 \<le> 7 * n" using assms(2) by linarith
  have "R = K' * 9007199254740992 + R mod 9007199254740992"
    unfolding K'_def by (rule div_mult_mod_eq [symmetric])
  moreover have "R mod 9007199254740992 < 9007199254740992" by simp
  ultimately have k': "R < 9007199254740992 * K' + 9007199254740992" by linarith
  have n: "n < 4294967296" using assms(1) by simp
  have "K \<le> K'" using lo k k' n by linarith
  moreover have "K' \<le> K"
    using numToRemove_of_near_exact [OF assms(1)]
    by (simp add: numToRemove_of_def PRUNE_PERCENTAGE_significand_def R_def K_def K'_def)
  ultimately show ?thesis
    by (simp add: numToRemove_of_def PRUNE_PERCENTAGE_significand_def R_def K_def K'_def)
qed

section \<open>The rolling window\<close>

lemma buffer_addMessage [simp]:
  "messageBuffer (memory (addMessage mid message a)) = messageBuffer (memory a) @ [mid]"
  by (simp add: addMessage_def)

lemma messages_addMessage [simp]:
  "messages (addMessage mid message a) = (messages a)(mid \<mapsto> message)"
  by (simp add: addMessage_def)

lemma buffer_pushAll [simp]:
  "messageBuffer (memory (pushAll ms a)) = messageBuffer (memory a) @ map fst ms"
  unfolding pushAll_def by (induction ms arbitrary: a) (auto simp: case_prod_beta)

lemma buffer_bootedAgent [simp]: "messageBuffer (memory (bootedAgent i bs)) = []"
  by (simp add: bootedAgent_def)

lemma buffer_exampleAgent [simp]: "messageBuffer (memory (exampleAgent n)) = exampleIds n"
  by (simp add: exampleAgent_def comp_def)

lemma length_exampleIds [simp]: "length (exampleIds n) = n"
  by (simp add: exampleIds_def)

lemma prune_noop:
  "length (messageBuffer (memory a)) \<le> MAX_MESSAGES cfg \<Longrightarrow>
   summarizeAndPruneMessages cfg callLlm now a = (Inr (), a, [])"
  by (simp add: summarizeAndPruneMessages_def)

lemma prune_fires:
  "MAX_MESSAGES cfg < length (messageBuffer (memory a)) \<Longrightarrow>
   snd (snd (summarizeAndPruneMessages cfg callLlm now a)) =
     [SummarizeConversation (messagesToSummarize a)]"
  by (simp add: summarizeAndPruneMessages_def Let_def split: sum.splits option.splits)

lemma prune_commits:
  "MAX_MESSAGES cfg < length (messageBuffer (memory a)) \<Longrightarrow>
   callLlm (SummarizeConversation (messagesToSummarize a)) = Inr (Some content) \<Longrightarrow>
   summarizeAndPruneMessages cfg callLlm now a =
     (Inr (),
      a\<lparr> messages := (messages a)(summaryMessageId cfg now \<mapsto> summaryRow content),
         memory := (memory a)\<lparr> messageBuffer := summaryMessageId cfg now # idsToKeep a \<rparr> \<rparr>,
      [SummarizeConversation (messagesToSummarize a)])"
  by (simp add: summarizeAndPruneMessages_def Let_def)

lemma length_idsToKeep:
  "length (idsToKeep a) =
     length (messageBuffer (memory a)) - numToRemove_of (length (messageBuffer (memory a)))"
  by (simp add: idsToKeep_def)

lemma length_after_prune:
  assumes "MAX_MESSAGES cfg < length (messageBuffer (memory a))"
      and "callLlm (SummarizeConversation (messagesToSummarize a)) = Inr (Some content)"
  shows "length (messageBuffer (memory (fst (snd (summarizeAndPruneMessages cfg callLlm now a))))) =
           length (messageBuffer (memory a)) - numToRemove_of (length (messageBuffer (memory a))) + 1"
  using assms by (simp add: prune_commits length_idsToKeep)

text \<open>
  Claim C5.  When the buffer holds at most \<open>MAX_MESSAGES\<close> ids, the prune step returns
  at once: the table and the buffer (the whole agent) are as before and no request is
  sent to the model.
\<close>

theorem C5_prune_is_noop_within_bound:
  assumes "length (messageBuffer (memory a)) \<le> MAX_MESSAGES cfg"
  shows "summarizeAndPruneMessages cfg callLlm now a = (Inr (), a, [])"
  using assms by (rule prune_noop)

theorem C5_prune_is_noop_within_bound_witness:
  "length (messageBuffer (memory (exampleAgent 50))) \<le> MAX_MESSAGES MESSAGE_BUFFER_CONFIG \<and>
   summarizeAndPruneMessages MESSAGE_BUFFER_CONFIG (llmReplies ''s'') 1700000000000 (exampleAgent 50)
     = (Inr (), exampleAgent 50, [])"
proof -
  have h: "length (messageBuffer (memory (exampleAgent 50))) \<le> MAX_MESSAGES MESSAGE_BUFFER_CONFIG"
    by (simp add: MESSAGE_BUFFER_CONFIG_def)
  show ?thesis
    using h C5_prune_is_noop_within_bound [OF h, of "llmReplies ''s''" 1700000000000] by simp
qed

text \<open>
  Claim C3.  When the buffer is over the bound and the call to the model throws, the
  prune step throws that error and has committed nothing: the table and the buffer (the
  whole agent) are as they were before the call.  The same holds however the step
  comes to throw, also when the model's answer carries no message.
\<close>

theorem C3_prune_commits_nothing_on_llm_error:
  assumes "MAX_MESSAGES cfg < length (messageBuffer (memory a))"
      and "callLlm (SummarizeConversation (messagesToSummarize a)) = Inl e"
  shows "summarizeAndPruneMessages cfg callLlm now a =
           (Inl e, a, [SummarizeConversation (messagesToSummarize a)]) \<and>
         (\<forall>other raised.
            fst (summarizeAndPruneMessages cfg other now a) = Inl raised \<longrightarrow>
            fst (snd (summarizeAndPruneMessages cfg other now a)) = a)"
  using assms
  by (auto simp: summarizeAndPruneMessages_def Let_def split: sum.splits option.splits)

theorem C3_prune_commits_nothing_on_llm_error_witness:
  "MAX_MESSAGES MESSAGE_BUFFER_CONFIG < length (messageBuffer (memory (exampleAgent 51))) \<and>
   llmFails (Error ''fetch failed'') (SummarizeConversation (messagesToSummarize (exampleAgent 51)))
     = Inl (Error ''fetch failed'') \<and>
   summarizeAndPruneMessages MESSAGE_BUFFER_CONFIG (llmFails (Error ''fetch failed''))
       1700000000000 (exampleAgent 51)
     = (Inl (Error ''fetch failed''), exampleAgent 51,
        [SummarizeConversation (messagesToSummarize (exampleAgent 51))])"
proof -
  have h1: "MAX_MESSAGES MESSAGE_BUFFER_CONFIG < length (messageBuffer (memory (exampleAgent 51)))"
    by (simp add: MESSAGE_BUFFER_CONFIG_def)
  have h2: "llmFails (Error ''fetch failed'')
      (SummarizeConversation (messagesToSummarize (exampleAgent 51))) = Inl (Error ''fetch failed'')"
    by (simp add: llmFails_def)
  show ?thesis
    using h1 h2
      C3_prune_commits_nothing_on_llm_error
        [where cfg = MESSAGE_BUFFER_CONFIG and a = "exampleAgent 51"
           and callLlm = "llmFails (Error ''fetch failed'')" and e = "Error ''fetch failed''"
           and now = 1700000000000]
    by simp
qed

text \<open>
  Claim C1, as the program has it.  On a buffer of \<open>N > MAX_MESSAGES\<close> ids, when the
  model answers, one prune step sends the rows of the \<open>k\<close> oldest ids to the model,
  writes the summary row, and sets the buffer to the summary id followed by the
  remaining \<open>N - k\<close> newest ids in their order.  The count \<open>k\<close> is
  \<^verbatim>\<open>Math.floor(N * 0.7)\<close> of the binary64 product: for an array length \<open>N\<close> it is
  \<open>floor(7 N / 10)\<close> whenever \<open>7 N / 10\<close> is not an integer, and
  \<open>floor(7 N / 10)\<close> or one less when it is.  For \<open>N = 60\<close> the step removes 42 ids,
  keeps 18, and the buffer ends with 19 ids.
\<close>

theorem C1_prune_replaces_oldest_by_summary:
  assumes "MAX_MESSAGES cfg < length (messageBuffer (memory a))"
      and "callLlm (SummarizeConversation (messagesToSummarize a)) = Inr (Some content)"
  shows "(\<exists>a'. summarizeAndPruneMessages cfg callLlm now a =
             (Inr (), a',
              [SummarizeConversation
                 (selectInOrder (messages a)
                    (take (numToRemove_of (length (messageBuffer (memory a))))
                       (messageBuffer (memory a))))]) \<and>
           messageBuffer (memory a') =
             summaryMessageId cfg now #
               drop (numToRemove_of (length (messageBuffer (memory a)))) (messageBuffer (memory a)) \<and>
           messages a' = (messages a)(summaryMessageId cfg now \<mapsto> summaryRow content) \<and>
           numToRemove_of (length (messageBuffer (memory a))) \<le> length (messageBuffer (memory a)) \<and>
           length (drop (numToRemove_of (length (messageBuffer (memory a)))) (messageBuffer (memory a)))
             = length (messageBuffer (memory a)) - numToRemove_of (length (messageBuffer (memory a))) \<and>
           (length (messageBuffer (memory a)) = 60 \<longrightarrow>
              numToRemove_of (length (messageBuffer (memory a))) = 42 \<and>
              length (drop 42 (messageBuffer (memory a))) = 18 \<and>
              length (messageBuffer (memory a')) = 19)) \<and>
         (length (messageBuffer (memory a)) < 2 ^ 32 \<longrightarrow>
            numToRemove_of (length (messageBuffer (memory a)))
              \<le> 7 * length (messageBuffer (memory a)) div 10 \<and>
            7 * length (messageBuffer (memory a)) div 10
              \<le> numToRemove_of (length (messageBuffer (memory a))) + 1 \<and>
            (7 * length (messageBuffer (memory a)) mod 10 \<noteq> 0 \<longrightarrow>
               numToRemove_of (length (messageBuffer (memory a)))
                 = 7 * length (messageBuffer (memory a)) div 10))"
proof (rule conjI)
  show "\<exists>a'. summarizeAndPruneMessages cfg callLlm now a =
             (Inr (), a',
              [SummarizeConversation
                 (selectInOrder (messages a)
                    (take (numToRemove_of (length (messageBuffer (memory a))))
                       (messageBuffer (memory a))))]) \<and>
           messageBuffer (memory a') =
             summaryMessageId cfg now #
               drop (numToRemove_of (length (messageBuffer (memory a)))) (messageBuffer (memory a)) \<and>
           messages a' = (messages a)(summaryMessageId cfg now \<mapsto> summaryRow content) \<and>
           numToRemove_of (length (messageBuffer (memory a))) \<le> length (messageBuffer (memory a)) \<and>
           length (drop (numToRemove_of (length (messageBuffer (memory a)))) (messageBuffer (memory a)))
             = length (messageBuffer (memory a)) - numToRemove_of (length (messageBuffer (memory a))) \<and>
           (length (messageBuffer (memory a)) = 60 \<longrightarrow>
              numToRemove_of (length (messageBuffer (memory a))) = 42 \<and>
              length (drop 42 (messageBuffer (memory a))) = 18 \<and>
              length (messageBuffer (memory a')) = 19)"
    using assms numToRemove_of_le [of "length (messageBuffer (memory a))"]
    by (simp add: prune_commits idsToKeep_def messagesToSummarize_def idsToSummarize_def
          numToRemove_of_60)
next
  show "length (messageBuffer (memory a)) < 2 ^ 32 \<longrightarrow>
          numToRemove_of (length (messageBuffer (memory a)))
            \<le> 7 * length (messageBuffer (memory a)) div 10 \<and>
          7 * length (messageBuffer (memory a)) div 10
            \<le> numToRemove_of (length (messageBuffer (memory a))) + 1 \<and>
          (7 * length (messageBuffer (memory a)) mod 10 \<noteq> 0 \<longrightarrow>
             numToRemove_of (length (messageBuffer (memory a)))
               = 7 * length (messageBuffer (memory a)) div 10)"
    using numToRemove_of_near_exact [of "length (messageBuffer (memory a))"]
          numToRemove_of_exact [of "length (messageBuffer (memory a))"]
    by blast
qed

theorem C1_prune_replaces_oldest_by_summary_witness:
  "MAX_MESSAGES MESSAGE_BUFFER_CONFIG < length (messageBuffer (memory (exampleAgent 60))) \<and>
   llmReplies ''s'' (SummarizeConversation (messagesToSummarize (exampleAgent 60)))
     = Inr (Some (Str ''s'')) \<and>
   (\<exists>a'. summarizeAndPruneMessages MESSAGE_BUFFER_CONFIG (llmReplies ''s'') 1700000000000
            (exampleAgent 60) =
           (Inr (), a',
            [SummarizeConversation
               (selectInOrder (messages (exampleAgent 60)) (take 42 (exampleIds 60)))]) \<and>
         messageBuffer (memory a') =
           summaryMessageId MESSAGE_BUFFER_CONFIG 1700000000000 # drop 42 (exampleIds 60) \<and>
         length (messageBuffer (memory a')) = 19) \<and>
   MAX_MESSAGES MESSAGE_BUFFER_CONFIG < length (messageBuffer (memory (exampleAgent 51))) \<and>
   length (messageBuffer (memory (exampleAgent 51))) < 2 ^ 32 \<and>
   7 * length (messageBuffer (memory (exampleAgent 51))) mod 10 \<noteq> 0 \<and>
   numToRemove_of (length (messageBuffer (memory (exampleAgent 51)))) = 7 * 51 div 10"
proof -
  have h1: "MAX_MESSAGES MESSAGE_BUFFER_CONFIG < length (messageBuffer (memory (exampleAgent 60)))"
    by (simp add: MESSAGE_BUFFER_CONFIG_def)
  have h2: "llmReplies ''s'' (SummarizeConversation (messagesToSummarize (exampleAgent 60)))
      = Inr (Some (Str ''s''))"
    by (simp add: llmReplies_def)
  have g1: "MAX_MESSAGES MESSAGE_BUFFER_CONFIG < length (messageBuffer (memory (exampleAgent 51)))"
    by (simp add: MESSAGE_BUFFER_CONFIG_def)
  have g2: "llmReplies ''s'' (SummarizeConversation (messagesToSummarize (exampleAgent 51)))
      = Inr (Some (Str ''s''))"
    by (simp add: llmReplies_def)
  have at60: "\<exists>a'. summarizeAndPruneMessages MESSAGE_BUFFER_CONFIG (llmReplies ''s'') 1700000000000
            (exampleAgent 60) =
           (Inr (), a',
            [SummarizeConversation
               (selectInOrder (messages (exampleAgent 60)) (take 42 (exampleIds 60)))]) \<and>
         messageBuffer (memory a') =
           summaryMessageId MESSAGE_BUFFER_CONFIG 1700000000000 # drop 42 (exampleIds 60) \<and>
         length (messageBuffer (memory a')) = 19"
    using h1 h2
      C1_prune_replaces_oldest_by_summary
        [where cfg = MESSAGE_BUFFER_CONFIG and a = "exampleAgent 60"
           and callLlm = "llmReplies ''s''" and content = "Str ''s''" and now = 1700000000000]
    by (auto simp: numToRemove_of_60)
  have at51: "numToRemove_of (length (messageBuffer (memory (exampleAgent 51)))) = 7 * 51 div 10"
    using g1 g2
      C1_prune_replaces_oldest_by_summary
        [where cfg = MESSAGE_BUFFER_CONFIG and a = "exampleAgent 51"
           and callLlm = "llmReplies ''s''" and content = "Str ''s''" and now = 1700000000000]
    by simp
  show ?thesis
    using h1 h2 g1 at60 at51 by simp
qed

text \<open>
  The count is not always \<open>floor(N * 0.7)\<close> of the rationals: on a buffer of 90 ids
  the binary64 product \<open>90 * 0.7\<close> is \<open>62.99999999999999\<close>, so the step removes 62
  ids, keeps 28 and leaves a buffer of 29 ids, where \<open>floor(90 * 7 / 10)\<close> is 63.
\<close>

theorem C1_prune_count_at_90:
  "MAX_MESSAGES MESSAGE_BUFFER_CONFIG < length (messageBuffer (memory (exampleAgent 90))) \<and>
   length (idsToSummarize (exampleAgent 90)) = 62 \<and>
   length (idsToKeep (exampleAgent 90)) = 28 \<and>
   length (messageBuffer (memory
     (fst (snd (summarizeAndPruneMessages MESSAGE_BUFFER_CONFIG (llmReplies ''s'') 1700000000000
                  (exampleAgent 90)))))) = 29 \<and>
   7 * length (messageBuffer (memory (exampleAgent 90))) div 10 = 63"
proof -
  have h1: "MAX_MESSAGES MESSAGE_BUFFER_CONFIG < length (messageBuffer (memory (exampleAgent 90)))"
    by (simp add: MESSAGE_BUFFER_CONFIG_def)
  have h2: "llmReplies ''s'' (SummarizeConversation (messagesToSummarize (exampleAgent 90)))
      = Inr (Some (Str ''s''))"
    by (simp add: llmReplies_def)
  show ?thesis
    using h1 h2
      length_after_prune
        [where cfg = MESSAGE_BUFFER_CONFIG and a = "exampleAgent 90"
           and callLlm = "llmReplies ''s''" and content = "Str ''s''" and now = 1700000000000]
    by (simp add: numToRemove_of_90 idsToSummarize_def idsToKeep_def)
qed

lemma bufferResolves_iff:
  "bufferResolves a \<longleftrightarrow> set (messageBuffer (memory a)) \<subseteq> dom (messages a)"
  by (auto simp: bufferResolves_def list_all_iff)

lemma bufferResolves_bootedAgent: "bufferResolves (bootedAgent i bs)"
  by (simp add: bufferResolves_def)

lemma bufferResolves_addMessage:
  "bufferResolves a \<Longrightarrow> bufferResolves (addMessage mid message a)"
  by (auto simp: bufferResolves_iff)

lemma bufferResolves_pushAll: "bufferResolves a \<Longrightarrow> bufferResolves (pushAll ms a)"
  unfolding pushAll_def
  by (induction ms arbitrary: a) (auto simp: bufferResolves_addMessage)

lemma bufferResolves_exampleAgent: "bufferResolves (exampleAgent n)"
  unfolding exampleAgent_def
  by (rule bufferResolves_pushAll) (rule bufferResolves_bootedAgent)

lemma bufferResolves_prune:
  assumes "bufferResolves a"
  shows "bufferResolves (fst (snd (summarizeAndPruneMessages cfg callLlm now a)))"
proof (cases "length (messageBuffer (memory a)) \<le> MAX_MESSAGES cfg")
  case True
  then show ?thesis using assms by (simp add: prune_noop)
next
  case False
  let ?request = "SummarizeConversation (messagesToSummarize a)"
  show ?thesis
  proof (cases "callLlm ?request")
    case (Inl e)
    then show ?thesis
      using False assms by (simp add: summarizeAndPruneMessages_def Let_def)
  next
    case (Inr reply)
    show ?thesis
    proof (cases reply)
      case None
      then show ?thesis
        using False Inr assms by (simp add: summarizeAndPruneMessages_def Let_def)
    next
      case (Some content)
      have "set (idsToKeep a) \<subseteq> set (messageBuffer (memory a))"
        by (simp add: idsToKeep_def set_drop_subset)
      then show ?thesis
        using False Inr Some assms
        by (auto simp: prune_commits bufferResolves_iff)
    qed
  qed
qed

text \<open>
  Claim C6.  Every id of the buffer has a row in the table: this holds of the booted
  agent (empty buffer, empty table) and is kept by \<^verbatim>\<open>addMessage\<close>, which writes
  the row and then appends its id, and by the prune step, whatever its outcome, which
  writes the summary row and then puts its id in front of ids the buffer already held.
\<close>

theorem C6_buffer_ids_resolve:
  "bufferResolves (bootedAgent instructions defaultBlocks) \<and>
   (bufferResolves a \<longrightarrow> bufferResolves (addMessage mid message a)) \<and>
   (bufferResolves a \<longrightarrow>
      bufferResolves (fst (snd (summarizeAndPruneMessages cfg callLlm now a))))"
  by (simp add: bufferResolves_bootedAgent bufferResolves_addMessage bufferResolves_prune)

theorem C6_buffer_ids_resolve_witness:
  "bufferResolves (bootedAgent [] []) \<and>
   bufferResolves (exampleAgent 51) \<and>
   bufferResolves (addMessage ''m51'' exampleRow (exampleAgent 51)) \<and>
   bufferResolves
     (fst (snd (summarizeAndPruneMessages MESSAGE_BUFFER_CONFIG (llmReplies ''s'') 1700000000000
                  (exampleAgent 51))))"
  using bufferResolves_exampleAgent [of 51]
    C6_buffer_ids_resolve
      [where instructions = "[]" and defaultBlocks = "[]" and a = "exampleAgent 51"
         and mid = "''m51''" and message = exampleRow and cfg = MESSAGE_BUFFER_CONFIG
         and callLlm = "llmReplies ''s''" and now = 1700000000000]
  by simp

text \<open>
  Claim C4, as the program has it.  The prune step counts from the length \<open>N\<close> the
  buffer has when it runs, not from \<open>MAX_MESSAGES\<close>: after a prune of a buffer of
  \<open>N > MAX_MESSAGES\<close> ids the buffer holds \<open>N - k + 1\<close> ids, where \<open>k\<close> is
  \<^verbatim>\<open>Math.floor(N * 0.7)\<close> of the binary64 product.  For an array length \<open>N\<close> that
  is \<open>N - floor(7 N / 10) + 1\<close> whenever \<open>7 N / 10\<close> is not an integer, and that
  number or one more when it is.  When the prune ran at \<open>N = MAX_MESSAGES + 1\<close> and
  \<open>MAX_MESSAGES \<ge> 2\<close>, the new length is at most \<open>MAX_MESSAGES\<close>.  After further
  pushes the next prune step does nothing as long as the length is at most
  \<open>MAX_MESSAGES\<close> and calls the model as soon as the length exceeds it.
\<close>

theorem C4_buffer_length_after_prune:
  assumes "MAX_MESSAGES cfg < length (messageBuffer (memory a))"
      and "callLlm (SummarizeConversation (messagesToSummarize a)) = Inr (Some content)"
      and "a' = fst (snd (summarizeAndPruneMessages cfg callLlm now a))"
  shows "length (messageBuffer (memory a')) =
           length (messageBuffer (memory a)) - numToRemove_of (length (messageBuffer (memory a))) + 1 \<and>
         (length (messageBuffer (memory a)) = MAX_MESSAGES cfg + 1 \<and> 2 \<le> MAX_MESSAGES cfg \<longrightarrow>
            length (messageBuffer (memory a')) \<le> MAX_MESSAGES cfg) \<and>
         (length (messageBuffer (memory a')) + length ms \<le> MAX_MESSAGES cfg \<longrightarrow>
            summarizeAndPruneMessages cfg laterLlm laterNow (pushAll ms a') = (Inr (), pushAll ms a', [])) \<and>
         (MAX_MESSAGES cfg < length (messageBuffer (memory a')) + length ms \<longrightarrow>
            snd (snd (summarizeAndPruneMessages cfg laterLlm laterNow (pushAll ms a'))) =
              [SummarizeConversation (messagesToSummarize (pushAll ms a'))]) \<and>
         (length (messageBuffer (memory a)) < 2 ^ 32 \<longrightarrow>
            length (messageBuffer (memory a)) - 7 * length (messageBuffer (memory a)) div 10 + 1
              \<le> length (messageBuffer (memory a')) \<and>
            length (messageBuffer (memory a'))
              \<le> length (messageBuffer (memory a)) - 7 * length (messageBuffer (memory a)) div 10 + 2 \<and>
            (7 * length (messageBuffer (memory a)) mod 10 \<noteq> 0 \<longrightarrow>
               length (messageBuffer (memory a')) =
                 length (messageBuffer (memory a)) - 7 * length (messageBuffer (memory a)) div 10 + 1))"
proof -
  let ?N = "length (messageBuffer (memory a))"
  have len: "length (messageBuffer (memory a')) = ?N - numToRemove_of ?N + 1"
    using assms by (simp add: length_after_prune)
  have bound: "length (messageBuffer (memory a')) \<le> MAX_MESSAGES cfg"
    if "?N = MAX_MESSAGES cfg + 1" "2 \<le> MAX_MESSAGES cfg"
  proof -
    have "2 \<le> numToRemove_of ?N" using that by (intro numToRemove_of_ge_2) simp
    then show ?thesis using len that numToRemove_of_le [of ?N] by simp
  qed
  have exact: "?N - 7 * ?N div 10 + 1 \<le> length (messageBuffer (memory a')) \<and>
      length (messageBuffer (memory a')) \<le> ?N - 7 * ?N div 10 + 2 \<and>
      (7 * ?N mod 10 \<noteq> 0 \<longrightarrow> length (messageBuffer (memory a')) = ?N - 7 * ?N div 10 + 1)"
    if "?N < 2 ^ 32"
  proof -
    have "7 * ?N div 10 \<le> ?N" by simp
    then show ?thesis
      using len numToRemove_of_le [of ?N] numToRemove_of_near_exact [OF that]
        numToRemove_of_exact [OF that]
      by auto
  qed
  show ?thesis
    using len bound exact by (simp add: prune_noop prune_fires)
qed

theorem C4_buffer_length_after_prune_witness:
  "MAX_MESSAGES MESSAGE_BUFFER_CONFIG < length (messageBuffer (memory (exampleAgent 51))) \<and>
   llmReplies ''s'' (SummarizeConversation (messagesToSummarize (exampleAgent 51)))
     = Inr (Some (Str ''s'')) \<and>
   length (messageBuffer (memory (exampleAgent 51))) = MAX_MESSAGES MESSAGE_BUFFER_CONFIG + 1 \<and>
   2 \<le> MAX_MESSAGES MESSAGE_BUFFER_CONFIG \<and>
   length (messageBuffer (memory (exampleAgent 51))) < 2 ^ 32 \<and>
   7 * length (messageBuffer (memory (exampleAgent 51))) mod 10 \<noteq> 0 \<and>
   length (messageBuffer (memory (exampleAgent 51)))
     - 7 * length (messageBuffer (memory (exampleAgent 51))) div 10 + 1 = 17 \<and>
   length (messageBuffer (memory
     (fst (snd (summarizeAndPruneMessages MESSAGE_BUFFER_CONFIG (llmReplies ''s'') 1700000000000
                  (exampleAgent 51)))))) = 17 \<and>
   17 + length [(''m51'', exampleRow)] \<le> MAX_MESSAGES MESSAGE_BUFFER_CONFIG \<and>
   summarizeAndPruneMessages MESSAGE_BUFFER_CONFIG (llmFails NonError) 1700000000001
       (pushAll [(''m51'', exampleRow)]
          (fst (snd (summarizeAndPruneMessages MESSAGE_BUFFER_CONFIG (llmReplies ''s'')
                       1700000000000 (exampleAgent 51)))))
     = (Inr (),
        pushAll [(''m51'', exampleRow)]
          (fst (snd (summarizeAndPruneMessages MESSAGE_BUFFER_CONFIG (llmReplies ''s'')
                       1700000000000 (exampleAgent 51)))),
        []) \<and>
   MAX_MESSAGES MESSAGE_BUFFER_CONFIG < 17 + length (replicate 34 (''x'', exampleRow)) \<and>
   snd (snd (summarizeAndPruneMessages MESSAGE_BUFFER_CONFIG (llmFails NonError) 1700000000001
       (pushAll (replicate 34 (''x'', exampleRow))
          (fst (snd (summarizeAndPruneMessages MESSAGE_BUFFER_CONFIG (llmReplies ''s'')
                       1700000000000 (exampleAgent 51)))))))
     = [SummarizeConversation (messagesToSummarize
         (pushAll (replicate 34 (''x'', exampleRow))
            (fst (snd (summarizeAndPruneMessages MESSAGE_BUFFER_CONFIG (llmReplies ''s'')
                         1700000000000 (exampleAgent 51))))))]"
proof -
  let ?a' = "fst (snd (summarizeAndPruneMessages MESSAGE_BUFFER_CONFIG (llmReplies ''s'')
                         1700000000000 (exampleAgent 51)))"
  have h1: "MAX_MESSAGES MESSAGE_BUFFER_CONFIG < length (messageBuffer (memory (exampleAgent 51)))"
    by (simp add: MESSAGE_BUFFER_CONFIG_def)
  have h2: "llmReplies ''s'' (SummarizeConversation (messagesToSummarize (exampleAgent 51)))
      = Inr (Some (Str ''s''))"
    by (simp add: llmReplies_def)
  note t = C4_buffer_length_after_prune
      [where cfg = MESSAGE_BUFFER_CONFIG and a = "exampleAgent 51" and a' = ?a'
         and callLlm = "llmReplies ''s''" and content = "Str ''s''" and now = 1700000000000
         and laterLlm = "llmFails NonError" and laterNow = 1700000000001, OF h1 h2 refl]
  have len: "length (messageBuffer (memory ?a')) = 17"
    using t [of "[]"] by (simp add: numToRemove_of_51)
  have m: "MAX_MESSAGES MESSAGE_BUFFER_CONFIG = 50"
    by (simp add: MESSAGE_BUFFER_CONFIG_def)
  show ?thesis
    using h1 h2 len m t [of "[(''m51'', exampleRow)]"] t [of "replicate 34 (''x'', exampleRow)"]
    by simp
qed

text \<open>
  The claim's formula fails on the default configuration at the first prune: 51 pushes
  take the buffer over the bound of 50, the prune removes \<open>Math.floor(51 * 0.7) = 35\<close>
  ids and leaves 17, where \<open>MAX_MESSAGES - floor(MAX_MESSAGES * 0.7) + 1\<close> is 16.
\<close>

theorem C4_buffer_length_counterexample:
  "length (messageBuffer (memory
     (fst (snd (summarizeAndPruneMessages MESSAGE_BUFFER_CONFIG (llmReplies ''s'') 1700000000000
                  (exampleAgent 51)))))) = 17 \<and>
   MAX_MESSAGES MESSAGE_BUFFER_CONFIG - numToRemove_of (MAX_MESSAGES MESSAGE_BUFFER_CONFIG) + 1 = 16 \<and>
   MAX_MESSAGES MESSAGE_BUFFER_CONFIG - (7 * MAX_MESSAGES MESSAGE_BUFFER_CONFIG) div 10 + 1 = 16"
proof -
  have h1: "MAX_MESSAGES MESSAGE_BUFFER_CONFIG < length (messageBuffer (memory (exampleAgent 51)))"
    by (simp add: MESSAGE_BUFFER_CONFIG_def)
  have h2: "llmReplies ''s'' (SummarizeConversation (messagesToSummarize (exampleAgent 51)))
      = Inr (Some (Str ''s''))"
    by (simp add: llmReplies_def)
  have "numToRemove_of 50 = 35" by (simp add: numToRemove_unfold)
  then show ?thesis
    using h1 h2
      length_after_prune
        [where cfg = MESSAGE_BUFFER_CONFIG and a = "exampleAgent 51"
           and callLlm = "llmReplies ''s''" and content = "Str ''s''" and now = 1700000000000]
    by (simp add: numToRemove_of_51 MESSAGE_BUFFER_CONFIG_def)
qed

section \<open>The memory tools\<close>

lemma split_on_not_Nil [simp]: "split_on c s \<noteq> []"
  by (induction s) (auto split: list.splits)

lemma join_split_on [simp]: "join_with c (split_on c s) = s"
proof (induction s)
  case Nil
  show ?case by simp
next
  case (Cons x xs)
  obtain l ls where sp: "split_on c xs = l # ls"
    using split_on_not_Nil [of c xs] by (cases "split_on c xs") auto
  show ?case
  proof (cases "x = c")
    case True
    then show ?thesis using Cons sp by simp
  next
    case False
    then show ?thesis using Cons sp by (cases ls) auto
  qed
qed

lemma split_on_lines_free: "\<forall>l\<in>set (split_on c s). c \<notin> set l"
  by (induction s) (auto split: list.splits)

lemma join_with_Cons: "ls \<noteq> [] \<Longrightarrow> join_with c (l # ls) = l @ c # join_with c ls"
  by (cases ls) auto

lemma split_on_append_free:
  "c \<notin> set l \<Longrightarrow> split_on c (l @ c # s) = l # split_on c s"
  by (induction l) auto

lemma split_on_free: "c \<notin> set l \<Longrightarrow> split_on c l = [l]"
  by (induction l) auto

lemma split_join_with:
  "ls \<noteq> [] \<Longrightarrow> \<forall>l\<in>set ls. c \<notin> set l \<Longrightarrow> split_on c (join_with c ls) = ls"
proof (induction ls rule: join_with.induct)
  case (1 c)
  then show ?case by simp
next
  case (2 c l)
  then show ?case by (simp add: split_on_free)
next
  case (3 c l m ls)
  then show ?case by (simp add: split_on_append_free)
qed

lemma splice_insert_0: "splice_insert 0 item xs = item # xs"
  by (simp add: splice_insert_def)

lemma splice_insert_minus_1:
  "xs \<noteq> [] \<Longrightarrow> splice_insert (- 1) item xs = butlast xs @ [item, last xs]"
proof -
  assume ne: "xs \<noteq> []"
  then have n: "nat (max (int (length xs) - 1) 0) = length xs - 1"
    by (cases xs) auto
  have "take (length xs - 1) xs = butlast xs" by (simp add: butlast_conv_take)
  moreover have "drop (length xs - 1) xs = [last xs]"
  proof -
    have "drop (length (butlast xs)) (butlast xs @ [last xs]) = [last xs]" by simp
    then show ?thesis using ne by simp
  qed
  ultimately show ?thesis by (simp add: splice_insert_def Let_def n)
qed

lemma insertLine_0: "insertLine 0 new_text v = new_text @ CHR 0x0A # v"
  by (simp add: insertLine_def splice_insert_0 join_with_Cons)

lemma insertLine_minus_1:
  "insertLine (- 1) new_text v =
     join_with (CHR 0x0A)
       (butlast (split_on (CHR 0x0A) v) @ [new_text, last (split_on (CHR 0x0A) v)])"
  by (simp add: insertLine_def splice_insert_minus_1)

lemma memoryInsert_known:
  "List.find (\<lambda>b. label b = arg_label params) (blocks (memory agent)) \<noteq> None \<Longrightarrow>
   memoryInsert now params (Some agent) =
     (Inr ''Successfully inserted into memory block'',
      Some (agent\<lparr> memory := (memory agent)\<lparr> blocks :=
        map (\<lambda>b. if label b = arg_label params
                  then b\<lparr> block_value := insertLine (insert_line params) (new_str params) (block_value b),
                         lastUpdated := now \<rparr>
                  else b)
            (blocks (memory agent)) \<rparr> \<rparr>))"
  by (simp add: memoryInsert_def)

text \<open>
  Claim C8.  For a known label, \<^verbatim>\<open>memory_insert\<close> with line 0 puts the text and a
  line break in front of the value, so a text without a line break is the new first
  line; with line \<open>-1\<close> the text goes between the lines before the last and the last
  line (\<^verbatim>\<open>splice(-1, 0, text)\<close>), not after the last line.  Every block with the
  label gets the current time as \<^verbatim>\<open>lastUpdated\<close>; the other blocks are as before.
\<close>

theorem C8_memory_insert_at_boundary:
  assumes "List.find (\<lambda>b. label b = arg_label params) (blocks (memory agent)) \<noteq> None"
  shows "memoryInsert now (params\<lparr> insert_line := 0 \<rparr>) (Some agent) =
           (Inr ''Successfully inserted into memory block'',
            Some (agent\<lparr> memory := (memory agent)\<lparr> blocks :=
              map (\<lambda>b. if label b = arg_label params
                        then b\<lparr> block_value := new_str params @ CHR 0x0A # block_value b,
                               lastUpdated := now \<rparr>
                        else b)
                  (blocks (memory agent)) \<rparr> \<rparr>)) \<and>
         memoryInsert now (params\<lparr> insert_line := - 1 \<rparr>) (Some agent) =
           (Inr ''Successfully inserted into memory block'',
            Some (agent\<lparr> memory := (memory agent)\<lparr> blocks :=
              map (\<lambda>b. if label b = arg_label params
                        then b\<lparr> block_value :=
                                 join_with (CHR 0x0A)
                                   (butlast (split_on (CHR 0x0A) (block_value b)) @
                                    [new_str params, last (split_on (CHR 0x0A) (block_value b))]),
                               lastUpdated := now \<rparr>
                        else b)
                  (blocks (memory agent)) \<rparr> \<rparr>)) \<and>
         (CHR 0x0A \<notin> set (new_str params) \<longrightarrow>
            split_on (CHR 0x0A) (new_str params @ CHR 0x0A # v) =
              new_str params # split_on (CHR 0x0A) v \<and>
            split_on (CHR 0x0A)
              (join_with (CHR 0x0A)
                 (butlast (split_on (CHR 0x0A) v) @ [new_str params, last (split_on (CHR 0x0A) v)])) =
              butlast (split_on (CHR 0x0A) v) @ [new_str params, last (split_on (CHR 0x0A) v)])"
proof -
  have lines: "\<forall>l\<in>set (butlast (split_on (CHR 0x0A) v) @ [new_str params, last (split_on (CHR 0x0A) v)]).
                 CHR 0x0A \<notin> set l"
    if "CHR 0x0A \<notin> set (new_str params)"
    using that split_on_lines_free [of "CHR 0x0A" v] split_on_not_Nil [of "CHR 0x0A" v]
    by (auto dest: in_set_butlastD)
  show ?thesis
    using assms lines
    by (simp add: memoryInsert_known insertLine_0 insertLine_minus_1 split_on_append_free
          split_join_with)
qed

theorem C8_memory_insert_at_boundary_witness:
  "List.find (\<lambda>b. label b = arg_label exampleArgs) (blocks (memory (bootedAgent [] [exampleBlock])))
     \<noteq> None \<and>
   snd (memoryInsert 1700000000000 (exampleArgs\<lparr> insert_line := 0 \<rparr>)
          (Some (bootedAgent [] [exampleBlock]))) =
     Some (bootedAgent [] [exampleBlock
       \<lparr> block_value := ''Age: 30'' @ [CHR 0x0A] @ ''First name: ?'' @ [CHR 0x0A] @ ''Last name: ?'',
         lastUpdated := 1700000000000 \<rparr>]) \<and>
   snd (memoryInsert 1700000000000 (exampleArgs\<lparr> insert_line := - 1 \<rparr>)
          (Some (bootedAgent [] [exampleBlock]))) =
     Some (bootedAgent [] [exampleBlock
       \<lparr> block_value := ''First name: ?'' @ [CHR 0x0A] @ ''Age: 30'' @ [CHR 0x0A] @ ''Last name: ?'',
         lastUpdated := 1700000000000 \<rparr>]) \<and>
   CHR 0x0A \<notin> set (new_str exampleArgs) \<and>
   split_on (CHR 0x0A) (new_str exampleArgs @ CHR 0x0A # ''a'') = [new_str exampleArgs, ''a'']"
proof -
  have h: "List.find (\<lambda>b. label b = arg_label exampleArgs)
             (blocks (memory (bootedAgent [] [exampleBlock]))) \<noteq> None"
    by (simp add: bootedAgent_def exampleBlock_def exampleArgs_def)
  have nl: "CHR 0x0A \<notin> set (new_str exampleArgs)"
    by (simp add: exampleArgs_def)
  show ?thesis
    using h nl
      C8_memory_insert_at_boundary
        [where params = exampleArgs and agent = "bootedAgent [] [exampleBlock]"
           and now = 1700000000000 and v = "''a''", OF h]
    by (simp add: bootedAgent_def exampleBlock_def exampleArgs_def)
qed

lemma getSubstitution_literal:
  "CHR ''$'' \<notin> set replaceValue \<Longrightarrow> getSubstitution matched str position replaceValue = replaceValue"
  by (induction matched str position replaceValue rule: getSubstitution.induct) auto

lemma replaceAllFrom_char:
  "CHR ''$'' \<notin> set replaceValue \<Longrightarrow>
   replaceAllFrom str [c] replaceValue position rest =
     concat (map (\<lambda>d. if d = c then replaceValue else [d]) rest)"
proof (induction rest arbitrary: position)
  case Nil
  show ?case by (subst replaceAllFrom.simps) simp
next
  case (Cons x xs)
  show ?case
    using Cons by (subst replaceAllFrom.simps) (simp add: getSubstitution_literal)
qed

text \<open>
  With a one-character \<^verbatim>\<open>old_str\<close> and a \<^verbatim>\<open>new_str\<close> that holds no dollar sign,
  \<^verbatim>\<open>replaceAll\<close> replaces every occurrence, not only the first.
\<close>

lemma replaceAll_char:
  "CHR ''$'' \<notin> set replaceValue \<Longrightarrow>
   replaceAll str [c] replaceValue = concat (map (\<lambda>d. if d = c then replaceValue else [d]) str)"
  by (simp add: replaceAll_def replaceAllFrom_char)

lemma count_replace_char:
  "x \<noteq> y \<Longrightarrow>
   count_list (concat (map (\<lambda>d. if d = x then [y] else [d]) str)) x = 0 \<and>
   count_list (concat (map (\<lambda>d. if d = x then [y] else [d]) str)) y =
     count_list str x + count_list str y"
  by (induction str) auto

lemma replaceAll_x_by_y:
  "count_list (replaceAll str ''x'' ''y'') (CHR ''x'') = 0 \<and>
   count_list (replaceAll str ''x'' ''y'') (CHR ''y'') =
     count_list str (CHR ''x'') + count_list str (CHR ''y'')"
  using count_replace_char [of "CHR ''x''" "CHR ''y''" str]
  by (simp add: replaceAll_char)

lemma memoryReplace_unknown_label:
  "List.find (\<lambda>b. label b = arg_label params) (blocks (memory agent)) = None \<Longrightarrow>
   memoryReplace now params (Some agent) = (Inr ''Block not found'', Some agent)"
  by (simp add: memoryReplace_def)

lemma memoryReplace_known:
  "List.find (\<lambda>b. label b = arg_label params) (blocks (memory agent)) \<noteq> None \<Longrightarrow>
   memoryReplace now params (Some agent) =
     (Inr ''Successfully inserted into memory block'',
      Some (agent\<lparr> memory := (memory agent)\<lparr> blocks :=
        map (\<lambda>b. if label b = arg_label params
                  then b\<lparr> block_value := replaceAll (block_value b) (old_str params) (new_str params),
                         lastUpdated := now \<rparr>
                  else b)
            (blocks (memory agent)) \<rparr> \<rparr>))"
  by (simp add: memoryReplace_def)

text \<open>
  Claim C7, where the program departs from it.  \<^verbatim>\<open>String.prototype.replaceAll\<close>
  reads \<^verbatim>\<open>$$\<close>, \<^verbatim>\<open>$&\<close>, \<^verbatim>\<open>$`\<close> and \<^verbatim>\<open>$'\<close> in the replacement as patterns,
  also when the search value is a string.  Replacing \<^verbatim>\<open>?\<close> by \<^verbatim>\<open>$$5\<close> in the value
  \<^verbatim>\<open>Fee: ?\<close> stores \<^verbatim>\<open>Fee: $5\<close>, and replacing it by \<^verbatim>\<open>$&\<close> leaves the value as it
  was: the occurrences of \<^verbatim>\<open>old_str\<close> are not replaced with \<^verbatim>\<open>new_str\<close>.
\<close>

theorem C7_replace_reads_dollar_patterns:
  "snd (memoryReplace 1700000000000 (exampleArgs\<lparr> new_str := ''$$5'' \<rparr>)
          (Some (bootedAgent [] [exampleBlock\<lparr> block_value := ''Fee: ?'' \<rparr>]))) =
     Some (bootedAgent [] [exampleBlock\<lparr> block_value := ''Fee: $5'', lastUpdated := 1700000000000 \<rparr>]) \<and>
   snd (memoryReplace 1700000000000 (exampleArgs\<lparr> new_str := ''$&'' \<rparr>)
          (Some (bootedAgent [] [exampleBlock\<lparr> block_value := ''Fee: ?'' \<rparr>]))) =
     Some (bootedAgent [] [exampleBlock\<lparr> block_value := ''Fee: ?'', lastUpdated := 1700000000000 \<rparr>])"
  by (simp add: memoryReplace_def bootedAgent_def exampleBlock_def exampleArgs_def
        replaceAll_def replaceAllFrom.simps)

section \<open>The tool dispatcher\<close>

lemma callTool_memory_tools_fulfil:
  "toolName = ''memory_insert'' \<or> toolName = ''memory_replace'' \<Longrightarrow>
   \<exists>v. fst (callTool net now toolName args current) = Fulfilled (Some v)"
  by (auto simp: callTool_def returnSync_def split: sum.splits)

lemma callTool_rate_limited:
  "(\<forall>attempt. \<exists>statusText body.
      net ''https://api.tavily.com/search'' args attempt = Response 429 statusText body) \<Longrightarrow>
   callTool net now ''internet_search'' args current =
     (Fulfilled (Some ''Error: Failed to search the internet''), current)"
proof -
  assume limited: "\<forall>attempt. \<exists>statusText body.
      net ''https://api.tavily.com/search'' args attempt = Response 429 statusText body"
  let ?fetch = "net ''https://api.tavily.com/search'' args"
  have step: "tavilyLoop e ?fetch i = tavilyLoop e ?fetch (Suc i)" if "i < retries" for e i
  proof -
    obtain st b where "?fetch i = Response 429 st b" using limited by blast
    then show ?thesis using that by (subst tavilyLoop.simps) simp
  qed
  have r: "retries = Suc (Suc (Suc 0))" by (simp add: retries_def)
  have "tavilyLoop e ?fetch 0 = tavilyLoop e ?fetch (Suc 0)" for e
    by (rule step) (simp add: r)
  moreover have "tavilyLoop e ?fetch (Suc 0) = tavilyLoop e ?fetch (Suc (Suc 0))" for e
    by (rule step) (simp add: r)
  moreover have "tavilyLoop e ?fetch (Suc (Suc 0)) = tavilyLoop e ?fetch (Suc (Suc (Suc 0)))" for e
    by (rule step) (simp add: r)
  moreover have "tavilyLoop e ?fetch (Suc (Suc (Suc 0))) = Fulfilled e" for e
    by (subst tavilyLoop.simps) (simp add: r)
  ultimately show ?thesis
    by (simp add: callTool_def internetSearch_def returnPromise_def)
qed

text \<open>
  Claim C9, where the program departs from it.  \<^verbatim>\<open>callTool\<close> returns the promise of
  \<^verbatim>\<open>internetSearch\<close> without awaiting it, so its \<^verbatim>\<open>catch\<close> never sees the
  rejection: when the search endpoint answers 500 three times, the promise
  \<^verbatim>\<open>callTool\<close> returns is rejected with the error instead of fulfilled with a string,
  and \<^verbatim>\<open>await callTool(...)\<close> in the tool loop throws.
\<close>

theorem C9_callTool_rejects_on_failed_search:
  "callTool serverError now ''internet_search'' args current =
     (Rejected (Error ''Failed to search the internet: Internal Server Error''), current) \<and>
   awaitPromise (fst (callTool serverError now ''internet_search'' args current)) =
     Inl (Error ''Failed to search the internet: Internal Server Error'')"
  by (simp add: callTool_def internetSearch_def returnPromise_def serverError_def
        tavilyLoop.simps retries_def response_ok_def awaitPromise_def)

section \<open>The message splitter\<close>

lemma lastIndexFrom_range:
  "lastIndexFrom i found c xs = found \<or>
   (int i \<le> lastIndexFrom i found c xs \<and> lastIndexFrom i found c xs < int i + int (length xs))"
proof (induction xs arbitrary: i found)
  case Nil
  show ?case by simp
next
  case (Cons x xs)
  show ?case using Cons [of "Suc i" "if x = c then int i else found"] by auto
qed

lemma lastIndexFrom_absent: "c \<notin> set xs \<Longrightarrow> lastIndexFrom i found c xs = found"
  by (induction xs arbitrary: i found) auto

lemma lastIndexOf_range:
  "lastIndexOf s c position = - 1 \<or>
   (0 \<le> lastIndexOf s c position \<and> lastIndexOf s c position \<le> int position)"
  using lastIndexFrom_range [of 0 "- 1" c "take (Suc position) s"]
  by (auto simp: lastIndexOf_def)

lemma lastIndexOf_absent:
  "c \<notin> set (take (Suc position) s) \<Longrightarrow> lastIndexOf s c position = - 1"
  by (simp add: lastIndexOf_def lastIndexFrom_absent)

lemma splitIndexOf_range:
  "0 \<le> splitIndexOf remaining maxLength \<and> splitIndexOf remaining maxLength \<le> int maxLength"
  using lastIndexOf_range [of remaining "CHR 0x0A" maxLength]
        lastIndexOf_range [of remaining "CHR '' ''" maxLength]
  by (auto simp: splitIndexOf_def Let_def)

lemma splitIndexOf_hard_cutoff:
  "CHR 0x0A \<notin> set (take (Suc maxLength) remaining) \<Longrightarrow>
   CHR '' '' \<notin> set (take (Suc maxLength) remaining) \<Longrightarrow>
   splitIndexOf remaining maxLength = int maxLength"
  by (simp add: splitIndexOf_def lastIndexOf_absent)

lemma splitLoop_step:
  "0 < length remaining \<Longrightarrow> maxLength < length remaining \<Longrightarrow>
   splitLoop maxLength chunks remaining =
     splitLoop maxLength (chunks @ [take (nat (splitIndexOf remaining maxLength)) remaining])
       (drop (nat (splitIndexOf remaining maxLength + 1)) remaining)"
  by (subst splitLoop.simps) simp

lemma splitLoop_last:
  "0 < length remaining \<Longrightarrow> length remaining \<le> maxLength \<Longrightarrow>
   splitLoop maxLength chunks remaining = chunks @ [remaining]"
  by (subst splitLoop.simps) simp

lemma splitLoop_empty: "splitLoop maxLength chunks [] = chunks"
  by (subst splitLoop.simps) simp

lemma splitLoop_bounded:
  "\<forall>chunk\<in>set chunks. length chunk \<le> maxLength \<Longrightarrow>
   \<forall>chunk\<in>set (splitLoop maxLength chunks remaining). length chunk \<le> maxLength"
proof (induction maxLength chunks remaining rule: splitLoop.induct)
  case (1 maxLength chunks remaining)
  consider "remaining = []" | "0 < length remaining" "length remaining \<le> maxLength"
    | "0 < length remaining" "maxLength < length remaining"
    by (cases remaining; cases "length remaining \<le> maxLength") auto
  then show ?case
  proof cases
    case 1
    then show ?thesis using "1.prems" by (simp add: splitLoop_empty)
  next
    case 2
    then show ?thesis using "1.prems" by (simp add: splitLoop_last)
  next
    case 3
    have "splitIndexOf remaining maxLength \<le> int maxLength"
      using splitIndexOf_range [of remaining maxLength] by simp
    then have "nat (splitIndexOf remaining maxLength) \<le> maxLength" by simp
    then have "\<forall>chunk\<in>set (chunks @ [take (nat (splitIndexOf remaining maxLength)) remaining]).
                 length chunk \<le> maxLength"
      using "1.prems" by auto
    then have "\<forall>chunk\<in>set (splitLoop maxLength
                 (chunks @ [take (nat (splitIndexOf remaining maxLength)) remaining])
                 (drop (nat (splitIndexOf remaining maxLength + 1)) remaining)).
               length chunk \<le> maxLength"
      using 3 by (intro "1.IH") auto
    then show ?thesis using 3 by (simp add: splitLoop_step)
  qed
qed

lemma splitMessageByNewline_bounded:
  "\<forall>chunk\<in>set (splitMessageByNewline msg maxLength). length chunk \<le> maxLength"
  using splitLoop_bounded [of "[]" maxLength msg]
  by (simp add: splitMessageByNewline_def)

lemma splitLoop_append:
  "splitLoop maxLength chunks remaining = chunks @ splitLoop maxLength [] remaining"
proof (induction "length remaining" arbitrary: chunks remaining rule: less_induct)
  case less
  consider "remaining = []" | "0 < length remaining" "length remaining \<le> maxLength"
    | "0 < length remaining" "maxLength < length remaining"
    by (cases remaining; cases "length remaining \<le> maxLength") auto
  then show ?case
  proof cases
    case 1
    then show ?thesis by (simp add: splitLoop_empty)
  next
    case 2
    then show ?thesis by (simp add: splitLoop_last)
  next
    case 3
    let ?t = "take (nat (splitIndexOf remaining maxLength)) remaining"
    let ?rest = "drop (nat (splitIndexOf remaining maxLength + 1)) remaining"
    have "0 \<le> splitIndexOf remaining maxLength"
      using splitIndexOf_range [of remaining maxLength] by simp
    then have shorter: "length ?rest < length remaining" using 3 by simp
    have "splitLoop maxLength (chunks @ [?t]) ?rest = (chunks @ [?t]) @ splitLoop maxLength [] ?rest"
      using shorter by (rule less)
    moreover have "splitLoop maxLength ([] @ [?t]) ?rest = ([] @ [?t]) @ splitLoop maxLength [] ?rest"
      using shorter by (rule less)
    ultimately show ?thesis
      using 3 by (simp add: splitLoop_step [of remaining maxLength chunks]
                             splitLoop_step [of remaining maxLength "[]"])
  qed
qed

lemma split_hard_cutoff:
  assumes "maxLength < length msg"
      and "CHR 0x0A \<notin> set (take (Suc maxLength) msg)"
      and "CHR '' '' \<notin> set (take (Suc maxLength) msg)"
  shows "splitMessageByNewline msg maxLength =
           take maxLength msg # splitLoop maxLength [] (drop (Suc maxLength) msg)"
proof -
  have k: "splitIndexOf msg maxLength = int maxLength"
    using assms(2,3) by (rule splitIndexOf_hard_cutoff)
  have ne: "0 < length msg" using assms(1) by (cases msg) simp_all
  have "splitLoop maxLength [] msg =
          splitLoop maxLength ([] @ [take maxLength msg]) (drop (Suc maxLength) msg)"
    using splitLoop_step [OF ne assms(1), of "[]"] by (simp add: k nat_add_distrib)
  also have "\<dots> = ([] @ [take maxLength msg]) @ splitLoop maxLength [] (drop (Suc maxLength) msg)"
    by (rule splitLoop_append)
  finally show ?thesis using assms(1) by (simp add: splitMessageByNewline_def)
qed

lemmas split_eval =
  splitMessageByNewline_def splitLoop.simps splitIndexOf_def lastIndexOf_def Let_def

text \<open>
  Claim C10.  Every chunk \<^verbatim>\<open>splitMessageByNewline\<close> returns is at most \<open>maxLength\<close>
  long.  At a hard cutoff the splitter loses a character: when the text is longer than
  \<open>maxLength\<close> and its first \<open>maxLength + 1\<close> characters hold no line break and no
  space, the first chunk is the first \<open>maxLength\<close> characters and the loop goes on
  after the character at index \<open>maxLength\<close>; for \<^verbatim>\<open>abc\<close> and 2 the only chunk is
  \<^verbatim>\<open>ab\<close>, and \<^verbatim>\<open>c\<close> is in no chunk.
\<close>

theorem C10_chunks_bounded_and_hard_cutoff_lossy:
  "(1 \<le> maxLength \<longrightarrow>
      (\<forall>chunk\<in>set (splitMessageByNewline msg maxLength). length chunk \<le> maxLength)) \<and>
   (maxLength < length msg \<and> CHR 0x0A \<notin> set (take (Suc maxLength) msg) \<and>
    CHR '' '' \<notin> set (take (Suc maxLength) msg) \<longrightarrow>
      splitMessageByNewline msg maxLength =
        take maxLength msg # splitLoop maxLength [] (drop (Suc maxLength) msg)) \<and>
   (\<exists>lost m. 1 \<le> m \<and> m < length lost \<and> CHR 0x0A \<notin> set (take (Suc m) lost) \<and>
      CHR '' '' \<notin> set (take (Suc m) lost) \<and>
      (\<forall>chunk\<in>set (splitMessageByNewline lost m). lost ! m \<notin> set chunk))"
proof -
  have "splitMessageByNewline ''abc'' 2 = [''ab'']"
    by (simp add: split_eval)
  then have "1 \<le> (2::nat) \<and> 2 < length ''abc'' \<and> CHR 0x0A \<notin> set (take (Suc 2) ''abc'') \<and>
      CHR '' '' \<notin> set (take (Suc 2) ''abc'') \<and>
      (\<forall>chunk\<in>set (splitMessageByNewline ''abc'' 2). ''abc'' ! 2 \<notin> set chunk)"
    by simp
  then have "\<exists>lost m. 1 \<le> m \<and> m < length lost \<and> CHR 0x0A \<notin> set (take (Suc m) lost) \<and>
      CHR '' '' \<notin> set (take (Suc m) lost) \<and>
      (\<forall>chunk\<in>set (splitMessageByNewline lost m). lost ! m \<notin> set chunk)"
    by blast
  then show ?thesis
    using splitMessageByNewline_bounded [of msg maxLength] split_hard_cutoff [of maxLength msg]
    by blast
qed

theorem C10_chunks_bounded_and_hard_cutoff_lossy_witness:
  "1 \<le> (8::nat) \<and>
   splitMessageByNewline ''hello world, again'' 8 = [''hello'', ''world,'', ''again''] \<and>
   list_all (\<lambda>chunk. length chunk \<le> 8) (splitMessageByNewline ''hello world, again'' 8) \<and>
   2 < length ''abc'' \<and> CHR 0x0A \<notin> set (take (Suc 2) ''abc'') \<and>
   CHR '' '' \<notin> set (take (Suc 2) ''abc'') \<and>
   splitMessageByNewline ''abc'' 2 = [''ab'']"
proof -
  have e: "splitMessageByNewline ''hello world, again'' 8 = [''hello'', ''world,'', ''again'']"
    by (simp add: split_eval)
  have s: "splitLoop 2 [] [] = []"
    by (simp add: splitLoop_empty)
  show ?thesis
    using e s
      C10_chunks_bounded_and_hard_cutoff_lossy [of 8 "''hello world, again''"]
      C10_chunks_bounded_and_hard_cutoff_lossy [of 2 "''abc''"]
    by (simp add: list_all_iff)
qed

section \<open>The channel checkpoint\<close>

lemma oldestOf_descending:
  "sorted_wrt (\<lambda>m n. message_id n < message_id m) (first # others) \<Longrightarrow>
   oldestOf first others = last (first # others)"
  unfolding oldestOf_def
proof (induction others arbitrary: first)
  case Nil
  show ?case by simp
next
  case (Cons m ms)
  then have "sorted_wrt (\<lambda>m n. message_id n < message_id m) (m # ms)" by simp
  then have "foldl (\<lambda>oldest msg. if message_id msg < message_id oldest then msg else oldest) m ms
             = last (m # ms)"
    by (rule Cons.IH)
  then show ?case using Cons.prems by simp
qed

lemma recent_descending:
  assumes "sorted_wrt (<) (map message_id log)"
  shows "sorted_wrt (\<lambda>m n. message_id n < message_id m) (channelHistory log before)"
proof -
  let ?keep = "filter (\<lambda>m. case before of None \<Rightarrow> True | Some b \<Rightarrow> message_id m < b) log"
  have "sorted_wrt (\<lambda>m n. message_id m < message_id n) log"
    using assms by (simp add: sorted_wrt_map)
  then have "sorted_wrt (\<lambda>m n. message_id m < message_id n) ?keep"
    by (rule sorted_wrt_filter)
  then have "sorted_wrt (\<lambda>m n. message_id n < message_id m) (rev ?keep)"
    by (simp add: sorted_wrt_rev)
  then show ?thesis
    unfolding channelHistory_def by (rule sorted_wrt_take)
qed

lemma recent_page:
  "channelHistory log None = take 100 (rev log)"
  by (simp add: channelHistory_def)

lemma last_recent_page:
  assumes "100 \<le> length log"
  shows "last (take 100 (rev log)) = log ! (length log - 100)"
proof -
  have len: "length (take 100 (rev log)) = 100" using assms by simp
  have ne: "take 100 (rev log) \<noteq> []" using len by auto
  have "last (take 100 (rev log)) = take 100 (rev log) ! 99"
    using len by (simp add: last_conv_nth [OF ne])
  also have "\<dots> = rev log ! 99" by simp
  also have "\<dots> = log ! (length log - Suc 99)" using assms by (intro rev_nth) simp
  finally show ?thesis by simp
qed

lemma checkpointOf_unchanged [simp]: "checkpointOf (a\<lparr> messages := t \<rparr>) channelId = checkpointOf a channelId"
  by (simp add: checkpointOf_def)

lemma build_cases:
  assumes sorted: "sorted_wrt (<) (map message_id log)"
      and serves: "serves fetchChannelMessages channelId log"
      and run: "buildContextFromDiscord fetchChannelMessages callLlm channelId a = (r, a', requests)"
  shows "a' = a \<or>
         (100 \<le> length log \<and>
          oldestSeenMessageId (checkpointOf a channelId) \<noteq> Some (oldestRecentId log) \<and>
          (\<exists>merged. a' = a\<lparr> memory := (memory a)\<lparr> channelCheckpoints :=
             (channelCheckpoints (memory a))
               (channelId \<mapsto> \<lparr> oldestSeenMessageId = Some (oldestRecentId log),
                                summary = Some merged \<rparr>) \<rparr> \<rparr>))"
proof (cases "fetchChannelMessages channelId None")
  case (Inl e)
  then show ?thesis using run by (simp add: buildContextFromDiscord_def)
next
  case (Inr recent)
  then have recent: "recent = take 100 (rev log)"
    using serves by (auto simp: serves_def recent_page dest: spec [of _ None])
  show ?thesis
  proof (cases recent)
    case Nil
    then show ?thesis using run Inr by (simp add: buildContextFromDiscord_def)
  next
    case (Cons first others)
    have "sorted_wrt (\<lambda>m n. message_id n < message_id m) (channelHistory log None)"
      using sorted by (rule recent_descending)
    then have oldest: "oldestOf first others = last (take 100 (rev log))"
      using Cons recent by (simp add: recent_page oldestOf_descending)
    show ?thesis
    proof (cases "length recent = 100")
      case False
      then show ?thesis
        using run Inr Cons by (simp add: buildContextFromDiscord_def Let_def)
    next
      case True
      then have long: "100 \<le> length log" using recent by simp
      then have id: "message_id (oldestOf first others) = oldestRecentId log"
        using oldest by (simp add: last_recent_page oldestRecentId_def)
      show ?thesis
        using run Inr Cons True long id
        by (auto simp: buildContextFromDiscord_def Let_def
                 split: sum.splits if_splits prod.splits)
    qed
  qed
qed

lemma build_elsewhere:
  assumes "other \<noteq> channelId"
      and "buildContextFromDiscord fetchChannelMessages callLlm other a = (r, a', requests)"
  shows "checkpointOf a' channelId = checkpointOf a channelId"
  using assms
  by (auto simp: buildContextFromDiscord_def Let_def checkpointOf_def
           split: sum.splits list.splits if_splits prod.splits)

lemma checkpointOf_bootedAgent:
  "oldestSeenMessageId (checkpointOf (bootedAgent i bs) channelId) = None"
  by (simp add: checkpointOf_def bootedAgent_def)

lemma checkpointOf_update:
  "checkpointOf (a\<lparr> memory := (memory a)\<lparr> channelCheckpoints :=
      (channelCheckpoints (memory a))(channelId \<mapsto> cp) \<rparr> \<rparr>) channelId = cp"
  by (simp add: checkpointOf_def)

lemma oldestRecentId_append:
  assumes "sorted_wrt (<) (map message_id (log @ new))" and "100 \<le> length log"
  shows "oldestRecentId log \<le> oldestRecentId (log @ new)"
proof -
  let ?all = "log @ new"
  let ?i = "length log - 100" and ?j = "length ?all - 100"
  have i: "?i < length log" using assms(2) by simp
  have ij: "?i \<le> ?j" and j: "?j < length ?all" using assms(2) by simp_all
  have same: "?all ! ?i = log ! ?i" using i by (simp add: nth_append)
  have "message_id (?all ! ?i) \<le> message_id (?all ! ?j)"
  proof (cases "?i = ?j")
    case True
    then show ?thesis by simp
  next
    case False
    then have lt: "?i < ?j" using ij by simp
    have jl: "?j < length (map message_id ?all)" using j by simp
    have "map message_id ?all ! ?i < map message_id ?all ! ?j"
      by (rule sorted_wrt_nth_less [OF assms(1) lt jl])
    moreover have "?i < length ?all" using lt j by simp
    ultimately show ?thesis using j by (simp only: nth_map)
  qed
  then show ?thesis by (simp add: oldestRecentId_def same)
qed

lemma channelRun_invariant:
  "channelRun channelId log a \<Longrightarrow>
   sorted_wrt (<) (map message_id log) \<and>
   (\<forall>x. oldestSeenMessageId (checkpointOf a channelId) = Some x \<longrightarrow>
        100 \<le> length log \<and> x \<le> oldestRecentId log)"
proof (induction rule: channelRun.induct)
  case (boot instructions defaultBlocks)
  show ?case by (simp add: checkpointOf_bootedAgent)
next
  case (receive log a new)
  show ?case
  proof (intro conjI allI impI)
    show "sorted_wrt (<) (map message_id (log @ new))" by (rule receive.hyps(2))
  next
    fix x
    assume "oldestSeenMessageId (checkpointOf a channelId) = Some x"
    then have old: "100 \<le> length log" "x \<le> oldestRecentId log" using receive.IH by auto
    then show "100 \<le> length (log @ new)" by simp
    show "x \<le> oldestRecentId (log @ new)"
      using old oldestRecentId_append [OF receive.hyps(2) old(1)] by simp
  qed
next
  case (build log a fetchChannelMessages callLlm r a' requests)
  from build.IH have sorted: "sorted_wrt (<) (map message_id log)" by simp
  from build_cases [OF sorted build.hyps(2) build.hyps(3)]
  show ?case
  proof
    assume "a' = a"
    then show ?thesis using build.IH by simp
  next
    assume "100 \<le> length log \<and>
      oldestSeenMessageId (checkpointOf a channelId) \<noteq> Some (oldestRecentId log) \<and>
      (\<exists>merged. a' = a\<lparr> memory := (memory a)\<lparr> channelCheckpoints :=
         (channelCheckpoints (memory a))
           (channelId \<mapsto> \<lparr> oldestSeenMessageId = Some (oldestRecentId log),
                            summary = Some merged \<rparr>) \<rparr> \<rparr>)"
    then show ?thesis using sorted by (auto simp: checkpointOf_update)
  qed
next
  case (elsewhere log a other fetchChannelMessages callLlm r a' requests)
  then show ?case using build_elsewhere [OF elsewhere.hyps(2) elsewhere.hyps(3)] by simp
qed

text \<open>
  Claim C2, as the program has it.  In every run in which the channel only receives
  messages with increasing ids and no message is deleted (\<open>channelRun\<close>), once the
  checkpoint of the channel holds an id \<open>x\<close>, building the context leaves an id \<open>y\<close>
  with \<open>x \<le> y\<close>; and when it replaces the checkpoint, \<open>y\<close> is the id of the oldest of
  the 100 most recent messages and is greater than \<open>x\<close>: the boundary moves to a newer
  message, never to an older one.
\<close>

theorem C2_checkpoint_moves_forward:
  assumes run: "channelRun channelId log a"
      and seen: "oldestSeenMessageId (checkpointOf a channelId) = Some x"
      and serves: "serves fetchChannelMessages channelId log"
      and step: "buildContextFromDiscord fetchChannelMessages callLlm channelId a = (r, a', requests)"
  shows "\<exists>y. oldestSeenMessageId (checkpointOf a' channelId) = Some y \<and> x \<le> y \<and>
             (checkpointOf a' channelId \<noteq> checkpointOf a channelId \<longrightarrow>
                x < y \<and> y = oldestRecentId log)"
proof -
  from channelRun_invariant [OF run] seen
  have sorted: "sorted_wrt (<) (map message_id log)" and le: "x \<le> oldestRecentId log"
    by auto
  from build_cases [OF sorted serves step]
  show ?thesis
  proof
    assume "a' = a"
    then show ?thesis using seen by simp
  next
    assume "100 \<le> length log \<and>
      oldestSeenMessageId (checkpointOf a channelId) \<noteq> Some (oldestRecentId log) \<and>
      (\<exists>merged. a' = a\<lparr> memory := (memory a)\<lparr> channelCheckpoints :=
         (channelCheckpoints (memory a))
           (channelId \<mapsto> \<lparr> oldestSeenMessageId = Some (oldestRecentId log),
                            summary = Some merged \<rparr>) \<rparr> \<rparr>)"
    then show ?thesis using seen le by (auto simp: checkpointOf_update)
  qed
qed

lemma summarizeMessages_replies:
  "\<exists>merged request. summarizeMessages (llmReplies s) previous msgs = (Inr merged, [request])"
  by (simp add: summarizeMessages_def llmReplies_def Let_def)

lemma older_page_nonempty:
  assumes sorted: "sorted_wrt (<) (map message_id log)" and long: "100 < length log"
  shows "channelHistory log (Some (oldestRecentId log)) \<noteq> []"
proof -
  let ?i = "length log - 101" and ?j = "length log - 100"
  have lt: "?i < ?j" and jl: "?j < length (map message_id log)" using long by simp_all
  have "map message_id log ! ?i < map message_id log ! ?j"
    by (rule sorted_wrt_nth_less [OF sorted lt jl])
  then have "message_id (log ! ?i) < oldestRecentId log"
    using long by (simp add: oldestRecentId_def)
  moreover have "log ! ?i \<in> set log" using long by simp
  ultimately have "filter (\<lambda>m. message_id m < oldestRecentId log) log \<noteq> []"
    by (auto simp: filter_empty_conv)
  then show ?thesis by (simp add: channelHistory_def)
qed

lemma build_updates:
  assumes sorted: "sorted_wrt (<) (map message_id log)" and long: "100 < length log"
      and differs: "oldestSeenMessageId (checkpointOf a channelId) \<noteq> Some (oldestRecentId log)"
  shows "oldestSeenMessageId
           (checkpointOf (fst (snd (buildContextFromDiscord (discordOf log) (llmReplies s) channelId a)))
              channelId) = Some (oldestRecentId log)"
proof -
  have len: "length (channelHistory log None) = 100" using long by (simp add: recent_page)
  then obtain first others where page: "channelHistory log None = first # others"
    by (cases "channelHistory log None") auto
  have "sorted_wrt (\<lambda>m n. message_id n < message_id m) (channelHistory log None)"
    using sorted by (rule recent_descending)
  then have "oldestOf first others = last (take 100 (rev log))"
    using page by (simp add: recent_page oldestOf_descending)
  then have id: "message_id (oldestOf first others) = oldestRecentId log"
    using long by (simp add: last_recent_page oldestRecentId_def)
  have older: "channelHistory log (Some (oldestRecentId log)) \<noteq> []"
    using sorted long by (rule older_page_nonempty)
  obtain merged request where merge:
    "summarizeMessages (llmReplies s) (orEmpty (summary (checkpointOf a channelId)))
       (channelHistory log (Some (oldestRecentId log))) = (Inr merged, [request])"
    using summarizeMessages_replies by blast
  have len': "length others = 99" using len page by simp
  show ?thesis
    using differs older
    by (auto simp: buildContextFromDiscord_def discordOf_def Let_def page id merge len'
          checkpointOf_update)
qed

lemma serves_discordOf: "serves (discordOf log) channelId log"
  by (simp add: serves_def discordOf_def)

lemma sorted_exampleLog: "sorted_wrt (<) (map message_id (exampleLog n))"
proof -
  have "map message_id (exampleLog n) = [1..<Suc n]"
    by (simp add: exampleLog_def exampleMessage_def comp_def del: upt_Suc)
  then show ?thesis by (simp del: upt_Suc)
qed

lemma length_exampleLog [simp]: "length (exampleLog n) = n"
  by (simp add: exampleLog_def)

lemma oldestRecentId_exampleLog: "100 \<le> n \<Longrightarrow> oldestRecentId (exampleLog n) = n - 99"
  by (simp add: oldestRecentId_def exampleLog_def exampleMessage_def del: upt_Suc)

lemma exampleLog_Suc: "exampleLog (Suc n) = exampleLog n @ [exampleMessage (Suc n)]"
  by (simp add: exampleLog_def)

lemma first_build_sets_2:
  "oldestSeenMessageId (checkpointOf afterFirstBuild ''general'') = Some 2"
  unfolding afterFirstBuild_def
  using build_updates [OF sorted_exampleLog [of 101], of "bootedAgent [] []" "''general''" "''s''"]
  by (simp add: oldestRecentId_exampleLog checkpointOf_bootedAgent)

lemma second_build_sets_3:
  "oldestSeenMessageId (checkpointOf afterSecondBuild ''general'') = Some 3"
  unfolding afterSecondBuild_def
  using build_updates [OF sorted_exampleLog [of 102], of afterFirstBuild "''general''" "''s''"]
  by (simp add: oldestRecentId_exampleLog first_build_sets_2)

lemma channelRun_afterFirstBuild: "channelRun ''general'' (exampleLog 102) afterFirstBuild"
proof -
  have "channelRun ''general'' [] (bootedAgent [] [])" by (rule channelRun.boot)
  then have "channelRun ''general'' ([] @ exampleLog 101) (bootedAgent [] [])"
    by (rule channelRun.receive) (simp add: sorted_exampleLog)
  then have start: "channelRun ''general'' (exampleLog 101) (bootedAgent [] [])" by simp
  let ?first = "buildContextFromDiscord (discordOf (exampleLog 101)) (llmReplies ''s'') ''general''
                  (bootedAgent [] [])"
  have "?first = (fst ?first, afterFirstBuild, snd (snd ?first))"
    by (simp add: afterFirstBuild_def)
  then have "channelRun ''general'' (exampleLog 101) afterFirstBuild"
    by (rule channelRun.build [OF start serves_discordOf])
  then have "channelRun ''general'' (exampleLog 101 @ [exampleMessage 102]) afterFirstBuild"
    by (rule channelRun.receive)
       (use sorted_exampleLog [of 102] in \<open>simp add: exampleLog_Suc [of 101, simplified]\<close>)
  then show ?thesis by (simp add: exampleLog_Suc [of 101, simplified])
qed

theorem C2_checkpoint_moves_forward_witness:
  "channelRun ''general'' (exampleLog 102) afterFirstBuild \<and>
   oldestSeenMessageId (checkpointOf afterFirstBuild ''general'') = Some 2 \<and>
   serves (discordOf (exampleLog 102)) ''general'' (exampleLog 102) \<and>
   checkpointOf afterSecondBuild ''general'' \<noteq> checkpointOf afterFirstBuild ''general'' \<and>
   (\<exists>y. oldestSeenMessageId (checkpointOf afterSecondBuild ''general'') = Some y \<and> 2 \<le> y \<and>
        2 < y \<and> y = oldestRecentId (exampleLog 102))"
proof -
  have step: "buildContextFromDiscord (discordOf (exampleLog 102)) (llmReplies ''s'') ''general''
                afterFirstBuild
              = (fst (buildContextFromDiscord (discordOf (exampleLog 102)) (llmReplies ''s'')
                        ''general'' afterFirstBuild),
                 afterSecondBuild,
                 snd (snd (buildContextFromDiscord (discordOf (exampleLog 102)) (llmReplies ''s'')
                             ''general'' afterFirstBuild)))"
    by (simp add: afterSecondBuild_def)
  have differs: "checkpointOf afterSecondBuild ''general'' \<noteq> checkpointOf afterFirstBuild ''general''"
    using first_build_sets_2 second_build_sets_3 by auto
  show ?thesis
    using channelRun_afterFirstBuild first_build_sets_2 serves_discordOf differs
      C2_checkpoint_moves_forward
        [OF channelRun_afterFirstBuild first_build_sets_2 serves_discordOf step]
    by auto
qed

text \<open>
  The claim fails on a channel of 101 messages with the ids 1 to 101: the first build
  sets the checkpoint to 2, the oldest of the 100 most recent ids; after message 102
  arrives the next build replaces it with 3, a newer id and not an older one.
\<close>

theorem C2_checkpoint_replaced_by_newer_id:
  "oldestSeenMessageId (checkpointOf afterFirstBuild ''general'') = Some 2 \<and>
   oldestSeenMessageId (checkpointOf afterSecondBuild ''general'') = Some 3 \<and>
   \<not> (3::nat) \<le> 2"
  by (simp add: first_build_sets_2 second_build_sets_3)

text \<open>
  The hypothesis that no message is deleted is needed: once message 50 of the 102 is
  deleted, the oldest of the 100 most recent messages is message 2 again, and the next
  build moves the checkpoint from 3 back to 2.
\<close>

lemma upt_without_50: "filter (\<lambda>i. i \<noteq> 50) [1..<103] = [1..<50] @ [51..<103]"
proof -
  have "[1..<103] = [1..<50] @ [50..<103]"
    using upt_add_eq_append [of 1 50 53] by simp
  also have "[50..<103] = 50 # [51..<103]"
    using upt_conv_Cons [of 50 103] by simp
  finally have "[1..<103] = [1..<50] @ 50 # [51..<103]" .
  then have "filter (\<lambda>i. i \<noteq> 50) [1..<103]
      = filter (\<lambda>i. i \<noteq> 50) [1..<50] @ filter (\<lambda>i. i \<noteq> 50) [51..<103]"
    by simp
  moreover have "filter (\<lambda>i. i \<noteq> 50) [1..<50] = [1..<50]"
    by (rule filter_True) simp
  moreover have "filter (\<lambda>i. i \<noteq> 50) [51..<103] = [51..<103]"
    by (rule filter_True) simp
  ultimately show ?thesis by simp
qed

lemma logWithout50_ids: "logWithout50 = map exampleMessage ([1..<50] @ [51..<103])"
proof -
  have "logWithout50 = map exampleMessage (filter (\<lambda>i. i \<noteq> 50) [1..<103])"
    by (simp add: logWithout50_def exampleLog_def filter_map comp_def exampleMessage_def
          del: upt_Suc)
  then show ?thesis by (simp only: upt_without_50)
qed

lemma sorted_logWithout50: "sorted_wrt (<) (map message_id logWithout50)"
proof -
  have "map message_id logWithout50 = filter (\<lambda>i. i \<noteq> 50) (map message_id (exampleLog 102))"
    by (simp add: logWithout50_def filter_map comp_def)
  then show ?thesis
    using sorted_wrt_filter [OF sorted_exampleLog [of 102], of "\<lambda>i. i \<noteq> 50"] by simp
qed

lemma length_logWithout50: "length logWithout50 = 101"
  by (simp add: logWithout50_ids del: upt_Suc)

lemma oldestRecentId_logWithout50: "oldestRecentId logWithout50 = 2"
  by (simp add: oldestRecentId_def logWithout50_ids exampleMessage_def nth_append del: upt_Suc)

lemma checkpoint_moves_back_after_deletion:
  "oldestSeenMessageId (checkpointOf afterSecondBuild ''general'') = Some 3 \<and>
   oldestSeenMessageId (checkpointOf afterDeletion ''general'') = Some 2"
  unfolding afterDeletion_def
  using build_updates [OF sorted_logWithout50, of afterSecondBuild "''general''" "''s''"]
  by (simp add: second_build_sets_3 length_logWithout50 oldestRecentId_logWithout50)

end
